theory Spec2Isabelle
  imports Complex_Main "HOL-Library.Sublist" "HOL-Library.AList"
begin

section \<open>Python values of the quantfit step\<close>

text \<open>
  The quantfit step of GAR reads its parameters from spreadsheet cells, checks them
  (\<^verbatim>\<open>check_parameters_quantfit\<close>) and builds one transformed column per declared
  regressor (\<^verbatim>\<open>run_quantfit\<close>), all in \<^verbatim>\<open>src/GAR/quantfit/quantfit_main.py\<close>.

  A cell value is \<^verbatim>\<open>None\<close> (empty cell), a float (every number of a sheet is read as a
  float) or a string; the validator itself stores Python ints. A float is modelled by the
  rational number it denotes: every finite double is a rational, and the comparisons
  \<^verbatim>\<open><\<close>, \<^verbatim>\<open>></\<close>, \<^verbatim>\<open>==\<close> of Python compare these values exactly.
\<close>

datatype pyval = PNone | PFloat rat | PInt int | PStr string

text \<open>
  The float literals of the source, each as the exact value of the double that Python
  reads the literal as (\<^verbatim>\<open>float.as_integer_ratio\<close>). \<^verbatim>\<open>0.25\<close>, \<^verbatim>\<open>0.50\<close> and \<^verbatim>\<open>0.75\<close>
  are exact; \<^verbatim>\<open>0.10\<close>, \<^verbatim>\<open>0.90\<close> and \<^verbatim>\<open>1E-5\<close> are the nearest doubles.
\<close>

definition lit_0_10 :: rat where
  "lit_0_10 = 3602879701896397 / 36028797018963968"

definition lit_0_25 :: rat where
  "lit_0_25 = 1 / 4"

definition lit_0_50 :: rat where
  "lit_0_50 = 1 / 2"

definition lit_0_75 :: rat where
  "lit_0_75 = 3 / 4"

definition lit_0_90 :: rat where
  "lit_0_90 = 8106479329266893 / 9007199254740992"

definition lit_1E_5 :: rat where
  "lit_1E_5 = 5902958103587057 / 590295810358705651712"

text \<open>\<^verbatim>\<open>int(x)\<close> on a float truncates towards zero.\<close>

definition py_int :: "rat \<Rightarrow> int" where
  "py_int x = (if 0 \<le> x then \<lfloor>x\<rfloor> else \<lceil>x\<rceil>)"

text \<open>\<^verbatim>\<open>s.find(sub)\<close>: the index of the first occurrence of \<open>sub\<close> in \<open>s\<close>, or \<open>-1\<close>.\<close>

fun str_find_from :: "nat \<Rightarrow> string \<Rightarrow> string \<Rightarrow> int" where
  "str_find_from i [] sub = (if sub = [] then int i else - 1)"
| "str_find_from i (c # cs) sub =
     (if prefix sub (c # cs) then int i else str_find_from (Suc i) cs sub)"

definition str_find :: "string \<Rightarrow> string \<Rightarrow> int" where
  "str_find s sub = str_find_from 0 s sub"

section \<open>The parameter dictionary\<close>

text \<open>
  \<^verbatim>\<open>dict_input_quantfit['regressors']\<close> is a dict from the synthesized feature name to
  the inner dict \<^verbatim>\<open>{'transform': ..., 'option': ...}\<close>. Python dicts keep insertion order,
  so the outer dict is an association list (with distinct keys) and the inner one a
  record. The transform is a string: \<^verbatim>\<open>read_parameters_quantfit\<close> concatenates it into
  the feature name, which fails on anything else.
\<close>

record regspec =
  transform :: string
  option :: pyval

type_synonym regdict = "(string \<times> regspec) list"

text \<open>
  \<^verbatim>\<open>dict_input_quantfit\<close> itself: the key \<^verbatim>\<open>'quantlist'\<close> holds a list of floats and the
  key \<^verbatim>\<open>'regressors'\<close> the dict above, each possibly absent; every other key (the sheet
  names) holds a cell value.
\<close>

record params =
  quantlist :: "rat list option"
  regressors :: "regdict option"
  cells :: "(string \<times> pyval) list"

definition has_key :: "params \<Rightarrow> string \<Rightarrow> bool" where
  "has_key d key =
     (if key = ''quantlist'' then quantlist d \<noteq> None
      else if key = ''regressors'' then regressors d \<noteq> None
      else map_of (cells d) key \<noteq> None)"

section \<open>Messages and errors\<close>

text \<open>
  One constructor per message the validator builds, holding the values the message text
  is concatenated from.
\<close>

datatype message =
    KeyNotFound string
  | QuantlistNotBetween "rat list"
  | QuantlistMustInclude rat "rat list"
  | TransformNotValid string string
  | OptionMustNotBeSet string string
  | OptionMustBeInt string string pyval
  | InputSheetDoesNotExist string
  | NoSheetShouldExist string
  | SameAsInputSheet string string

text \<open>
  The ways the validator stops: a halting message (the spec's \<open>ConfigurationError\<close>) or a
  Python \<^verbatim>\<open>KeyError\<close> raised by \<^verbatim>\<open>dict_input_quantfit[key]\<close>.
\<close>

datatype error = Halt message | KeyError string

definition bind :: "error + 'a \<Rightarrow> ('a \<Rightarrow> error + 'b) \<Rightarrow> error + 'b" where
  "bind m f = (case m of Inl e \<Rightarrow> Inl e | Inr x \<Rightarrow> f x)"

text \<open>
  Modelled from the spec: \<^verbatim>\<open>show_message\<close> is imported from \<^verbatim>\<open>GAR.globals\<close>, which is
  not among the source files. The spec's notification sink receives a message and
  "may itself terminate the overall process on fatal configuration errors (halt
  semantics)": with \<^verbatim>\<open>halt=True\<close> the call does not return, with \<^verbatim>\<open>halt=False\<close> the
  message is shown and the caller goes on. The state is the list of messages shown so far.
  The value that \<^verbatim>\<open>halt\<close> takes in a call without this argument is set in \<^verbatim>\<open>GAR.globals\<close>
  too: it is left open, as the parameter \<open>halt_default\<close> of the validator.
\<close>

definition show_message :: "message \<Rightarrow> bool \<Rightarrow> message list \<Rightarrow> error + message list" where
  "show_message msg halt shown = (if halt then Inl (Halt msg) else Inr (shown @ [msg]))"

section \<open>The validator \<^verbatim>\<open>check_parameters_quantfit\<close>\<close>

subsection \<open>The key \<^verbatim>\<open>'quantlist'\<close> (lines 204 to 218)\<close>

definition necessary_vals :: "rat list" where
  "necessary_vals = [lit_0_10, lit_0_25, lit_0_50, lit_0_75, lit_0_90]"

fun check_necessary :: "rat list \<Rightarrow> rat list \<Rightarrow> message list \<Rightarrow> error + message list" where
  "check_necessary [] val shown = Inr shown"
| "check_necessary (v # vs) val shown =
     bind (if v \<notin> set val then show_message (QuantlistMustInclude v val) True shown
           else Inr shown)
       (check_necessary vs val)"

definition check_quantlist :: "rat list \<Rightarrow> message list \<Rightarrow> error + message list" where
  "check_quantlist val shown =
     bind (if \<not> (list_all (\<lambda>v. 0 < v) val \<and> list_all (\<lambda>v. v < 1) val)
           then show_message (QuantlistNotBetween val) True shown
           else Inr shown)
       (check_necessary necessary_vals val)"

subsection \<open>The key \<^verbatim>\<open>'regressors'\<close> (lines 220 to 244)\<close>

definition valid_transforms :: "string list" where
  "valid_transforms = [''None'', ''Lagged'', ''MVA'', ''Power'', ''Diff'', ''ChangeRate'']"

definition option_transforms :: "string list" where
  "option_transforms = [''Lagged'', ''MVA'', ''Power'', ''Diff'', ''ChangeRate'']"

text \<open>
  \<^verbatim>\<open>type(option) != float or abs(int(option) - option) > 1E-5\<close>. For a float \<open>x\<close> the
  truncation \<^verbatim>\<open>int(x)\<close> is itself a double and so is the difference, so the Python
  subtraction is exact.
\<close>

definition option_not_int :: "pyval \<Rightarrow> bool" where
  "option_not_int opt =
     (case opt of PFloat x \<Rightarrow> \<bar>of_int (py_int x) - x\<bar> > lit_1E_5 | _ \<Rightarrow> True)"

definition option_as_int :: "pyval \<Rightarrow> pyval" where
  "option_as_int opt = (case opt of PFloat x \<Rightarrow> PInt (py_int x) | _ \<Rightarrow> opt)"

text \<open>
  The body of the loop over the regressors: the three checks in the order of the source,
  then the assignment \<^verbatim>\<open>dict_input_quantfit['regressors'][regressor]['option'] = int(option)\<close>.
\<close>

definition check_regressor ::
  "string \<Rightarrow> regspec \<Rightarrow> message list \<Rightarrow> error + regspec \<times> message list" where
  "check_regressor regressor spec shown =
     bind (if transform spec \<notin> set valid_transforms
           then show_message (TransformNotValid regressor (transform spec)) True shown
           else Inr shown)
       (\<lambda>shown.
          bind (if transform spec \<in> set [''None''] \<and> option spec \<noteq> PNone
                then show_message (OptionMustNotBeSet regressor (transform spec)) True shown
                else Inr shown)
            (\<lambda>shown.
               if transform spec \<in> set option_transforms
               then bind (if option_not_int (option spec)
                          then show_message
                                 (OptionMustBeInt regressor (transform spec) (option spec))
                                 True shown
                          else Inr shown)
                      (\<lambda>shown. Inr (spec\<lparr>option := option_as_int (option spec)\<rparr>, shown))
               else Inr (spec, shown)))"

fun check_regressors :: "regdict \<Rightarrow> message list \<Rightarrow> error + regdict \<times> message list" where
  "check_regressors [] shown = Inr ([], shown)"
| "check_regressors ((regressor, spec) # rest) shown =
     bind (check_regressor regressor spec shown)
       (\<lambda>(spec', shown).
          bind (check_regressors rest shown)
            (\<lambda>(rest', shown). Inr ((regressor, spec') # rest', shown)))"

text \<open>
  What the loop body leaves of one declaration when it does not halt: the option of a
  transform with an option is replaced by its truncation.
\<close>

abbreviation normalised :: "regspec \<Rightarrow> regspec" where
  "normalised spec \<equiv>
     (if transform spec \<in> set option_transforms
      then spec\<lparr>option := option_as_int (option spec)\<rparr> else spec)"

subsection \<open>The sheet keys (lines 246 to 277)\<close>

definition input_sheets :: "string list" where
  "input_sheets =
     [''Readme'', ''Input_parameters'', ''Partition_groups'', ''Data'', ''Processing_Log'']"

definition set_cell :: "params \<Rightarrow> string \<Rightarrow> pyval \<Rightarrow> params" where
  "set_cell d key v = d\<lparr>cells := AList.update key v (cells d)\<rparr>"

text \<open>\<open>sheetnames\<close> are the names of the sheets of the workbook \<^verbatim>\<open>wb\<close>, a global.\<close>

definition check_sheet ::
  "string list \<Rightarrow> string \<Rightarrow> pyval \<Rightarrow> params \<times> message list \<Rightarrow> error + params \<times> message list"
  where
  "check_sheet sheetnames key val st =
     (case st of (d, shown) \<Rightarrow>
        if key = ''sheet_input'' then
          (if val = PNone then
             (let sheetname = ''Output_partitions'';
                  d = set_cell d key (PStr sheetname)
              in bind (if sheetname \<notin> set sheetnames
                       then show_message (InputSheetDoesNotExist sheetname) True shown
                       else Inr shown)
                   (\<lambda>shown. Inr (d, shown)))
           else Inr (d, shown))
        else if str_find key ''sheet_'' \<noteq> - 1 then
          (if val = PNone then
             (if key = ''sheet_quantreg''
              then Inr (set_cell d key (PStr ''Quant reg coefficients''), shown)
              else if key = ''sheet_cond_quant''
              then Inr (set_cell d key (PStr ''Conditional quantiles''), shown)
              else bind (show_message (NoSheetShouldExist key) True shown)
                     (\<lambda>shown. Inr (d, shown)))
           else
             (case val of
                PStr s \<Rightarrow>
                  bind (if s \<in> set input_sheets
                        then show_message (SameAsInputSheet key s) True shown
                        else Inr shown)
                    (\<lambda>shown. Inr (d, shown))
              | _ \<Rightarrow> Inr (d, shown)))
        else Inr (d, shown))"

subsection \<open>The two loops over the keys (lines 194 to 202)\<close>

text \<open>
  The first loop calls \<^verbatim>\<open>show_message(message)\<close>, with \<^verbatim>\<open>halt\<close> at its default.
\<close>

fun check_keys_exist ::
  "bool \<Rightarrow> params \<Rightarrow> string list \<Rightarrow> message list \<Rightarrow> error + message list" where
  "check_keys_exist halt_default d [] shown = Inr shown"
| "check_keys_exist halt_default d (key # keys) shown =
     bind (if \<not> has_key d key then show_message (KeyNotFound key) halt_default shown
           else Inr shown)
       (check_keys_exist halt_default d keys)"

text \<open>
  One round of the second loop: \<^verbatim>\<open>val = dict_input_quantfit[key]\<close> raises \<^verbatim>\<open>KeyError\<close>
  on an absent key; then the branch of the key.
\<close>

definition check_value ::
  "string list \<Rightarrow> string \<Rightarrow> params \<times> message list \<Rightarrow> error + params \<times> message list" where
  "check_value sheetnames key st =
     (case st of (d, shown) \<Rightarrow>
        if key = ''quantlist'' then
          (case quantlist d of
             None \<Rightarrow> Inl (KeyError key)
           | Some val \<Rightarrow> bind (check_quantlist val shown) (\<lambda>shown. Inr (d, shown)))
        else if key = ''regressors'' then
          (case regressors d of
             None \<Rightarrow> Inl (KeyError key)
           | Some val \<Rightarrow>
               bind (check_regressors val shown)
                 (\<lambda>(val', shown). Inr (d\<lparr>regressors := Some val'\<rparr>, shown)))
        else
          (case map_of (cells d) key of
             None \<Rightarrow> Inl (KeyError key)
           | Some val \<Rightarrow> check_sheet sheetnames key val (d, shown)))"

fun check_values ::
  "string list \<Rightarrow> string list \<Rightarrow> params \<times> message list \<Rightarrow> error + params \<times> message list"
  where
  "check_values sheetnames [] st = Inr st"
| "check_values sheetnames (key # keys) st =
     bind (check_value sheetnames key st) (check_values sheetnames keys)"

text \<open>
  The validator: the dict it returns is the caller's dict after the in-place
  assignments, with the messages that were shown without halting.
\<close>

definition check_parameters_quantfit ::
  "bool \<Rightarrow> string list \<Rightarrow> params \<Rightarrow> string list \<Rightarrow> error + params \<times> message list" where
  "check_parameters_quantfit halt_default sheetnames dict_input_quantfit keys =
     bind (check_keys_exist halt_default dict_input_quantfit keys [])
       (\<lambda>shown. check_values sheetnames keys (dict_input_quantfit, shown))"

text \<open>The keys \<^verbatim>\<open>prerun_quantfit\<close> passes (line 97).\<close>

definition quantfit_keys :: "string list" where
  "quantfit_keys =
     [''quantlist'', ''regressors'', ''sheet_input'', ''sheet_quantreg'', ''sheet_cond_quant'']"

section \<open>The regressors of \<^verbatim>\<open>read_parameters_quantfit\<close> (lines 150 to 170)\<close>

text \<open>\<^verbatim>\<open>str(i)\<close> for the index \<open>i\<close> of \<^verbatim>\<open>enumerate\<close>: the decimal digits of a natural number.\<close>

definition digit_char :: "nat \<Rightarrow> char" where
  "digit_char d = ''0123456789'' ! d"

fun str_nat :: "nat \<Rightarrow> string" where
  "str_nat n =
     (if n < 10 then [digit_char n] else str_nat (n div 10) @ [digit_char (n mod 10)])"

declare str_nat.simps [simp del]

text \<open>
  The key \<^verbatim>\<open>regressor+'_trans_'+str(iregressor)+'_'+transform\<close> under which a row of the
  sheet is stored.
\<close>

definition feature_name :: "string \<Rightarrow> nat \<Rightarrow> string \<Rightarrow> string" where
  "feature_name regressor iregressor transform' =
     regressor @ ''_trans_'' @ str_nat iregressor @ ''_'' @ transform'"

text \<open>
  A row of the sheet is the name of the regressor (column A), its transform (column B) and
  its option (column D). The loop stores the rows one after the other; assigning to a key
  that the dict already holds replaces the entry where it stands, as \<open>AList.update\<close> does.
\<close>

type_synonym row = "string \<times> string \<times> pyval"

fun read_regressors_from :: "nat \<Rightarrow> row list \<Rightarrow> regdict \<Rightarrow> regdict" where
  "read_regressors_from iregressor [] d = d"
| "read_regressors_from iregressor ((regressor, transform', option') # rows) d =
     read_regressors_from (Suc iregressor) rows
       (AList.update (feature_name regressor iregressor transform')
          \<lparr>transform = transform', option = option'\<rparr> d)"

definition read_regressors :: "row list \<Rightarrow> regdict" where
  "read_regressors rows = read_regressors_from 0 rows []"

text \<open>The keys that the loop synthesizes for the rows, in the order of the rows.\<close>

fun feature_names_from :: "nat \<Rightarrow> row list \<Rightarrow> string list" where
  "feature_names_from i [] = []"
| "feature_names_from i ((regressor, transform', option') # rows) =
     feature_name regressor i transform' # feature_names_from (Suc i) rows"

text \<open>\<^verbatim>\<open>regressors=list(dict_input_quantfit['regressors'].keys())\<close> of \<^verbatim>\<open>run_quantfit\<close> (line 336).\<close>

definition regressor_keys :: "regdict \<Rightarrow> string list" where
  "regressor_keys regs = map fst regs"

section \<open>The transforms of \<^verbatim>\<open>run_quantfit\<close> (lines 340 to 353)\<close>

subsection \<open>Floats of a column\<close>

text \<open>
  A column of the data frame holds doubles, and pandas marks a missing value by the
  double \<^verbatim>\<open>NaN\<close>; an infinity is a value, not a missing one. \<open>Fin a\<close> is the finite double
  of value \<open>a\<close> (\<open>Fin 0\<close> is \<^verbatim>\<open>+0.0\<close>) and \<open>NegZero\<close> is \<^verbatim>\<open>-0.0\<close>.
\<close>

datatype fl = Fin rat | NegZero | PosInf | NegInf | NaN

definition is_zero :: "fl \<Rightarrow> bool" where
  "is_zero x = (x = Fin 0 \<or> x = NegZero)"

definition is_inf :: "fl \<Rightarrow> bool" where
  "is_inf x = (x = PosInf \<or> x = NegInf)"

definition negative :: "fl \<Rightarrow> bool" where
  "negative x = (case x of Fin a \<Rightarrow> a < 0 | NegZero \<Rightarrow> True | NegInf \<Rightarrow> True | _ \<Rightarrow> False)"

text \<open>
  What the arithmetic of the platform does beyond the special cases of IEEE 754 is not
  in the source files, and is left open as three parameters:
  \<^item> \<open>rnd\<close>, the double that an operation returns for an exact result that it has to
    round (or that overflows or underflows);
  \<^item> \<open>powf\<close>, the \<^verbatim>\<open>pow\<close> of the C library, for a base other than \<^verbatim>\<open>NaN\<close> and an exponent
    other than 0;
  \<^item> \<open>meanf\<close>, the value that the running mean of pandas returns for a window that is
    complete, from the window length and the rows up to the current one.
  Nothing is assumed of them, so that what is proved holds for every rounding.
\<close>

record arith =
  rnd :: "rat \<Rightarrow> fl"
  powf :: "fl \<Rightarrow> int \<Rightarrow> fl"
  meanf :: "nat \<Rightarrow> fl list \<Rightarrow> fl"

text \<open>
  An IEEE operation returns the exact result when that is a double, and every integer
  up to \<open>2^53\<close> in absolute value is a double; an exact zero from finite operands is
  \<^verbatim>\<open>+0.0\<close> (rounding to nearest). Any other exact result is given to \<open>rnd\<close>.
\<close>

definition exact_or :: "(rat \<Rightarrow> fl) \<Rightarrow> rat \<Rightarrow> fl" where
  "exact_or r a = (if a = of_int \<lfloor>a\<rfloor> \<and> \<bar>a\<bar> \<le> 2 ^ 53 then Fin a else r a)"

definition fl_neg :: "fl \<Rightarrow> fl" where
  "fl_neg x =
     (case x of
        Fin a \<Rightarrow> (if a = 0 then NegZero else Fin (- a))
      | NegZero \<Rightarrow> Fin 0
      | PosInf \<Rightarrow> NegInf
      | NegInf \<Rightarrow> PosInf
      | NaN \<Rightarrow> NaN)"

text \<open>
  Addition: \<^verbatim>\<open>NaN\<close> absorbs, \<^verbatim>\<open>inf + -inf\<close> is \<^verbatim>\<open>NaN\<close>, an infinity absorbs a finite value,
  \<^verbatim>\<open>-0.0\<close> is neutral.
\<close>

definition fl_add :: "(rat \<Rightarrow> fl) \<Rightarrow> fl \<Rightarrow> fl \<Rightarrow> fl" where
  "fl_add r x y =
     (if x = NaN \<or> y = NaN then NaN
      else if is_inf x \<and> is_inf y then (if x = y then x else NaN)
      else if is_inf x then x
      else if is_inf y then y
      else if x = NegZero then y
      else if y = NegZero then x
      else (case x of
              Fin a \<Rightarrow> (case y of Fin b \<Rightarrow> exact_or r (a + b) | _ \<Rightarrow> NaN)
            | _ \<Rightarrow> NaN))"

definition fl_sub :: "(rat \<Rightarrow> fl) \<Rightarrow> fl \<Rightarrow> fl \<Rightarrow> fl" where
  "fl_sub r x y = fl_add r x (fl_neg y)"

text \<open>
  Division, as numpy does it (it does not raise): \<^verbatim>\<open>NaN\<close> absorbs, \<^verbatim>\<open>inf / inf\<close> and
  \<^verbatim>\<open>0 / 0\<close> are \<^verbatim>\<open>NaN\<close>, a value other than zero over zero is an infinity, an infinity over
  a finite value is an infinity, zero over a value and a finite value over an infinity
  are a zero, each with the sign that the signs of the operands give.
\<close>

definition fl_div :: "(rat \<Rightarrow> fl) \<Rightarrow> fl \<Rightarrow> fl \<Rightarrow> fl" where
  "fl_div r x y =
     (if x = NaN \<or> y = NaN then NaN
      else if is_inf x \<and> is_inf y then NaN
      else if is_zero x \<and> is_zero y then NaN
      else if is_zero y \<or> is_inf x then (if negative x = negative y then PosInf else NegInf)
      else if is_zero x \<or> is_inf y then (if negative x = negative y then Fin 0 else NegZero)
      else (case x of
              Fin a \<Rightarrow> (case y of Fin b \<Rightarrow> exact_or r (a / b) | _ \<Rightarrow> NaN)
            | _ \<Rightarrow> NaN))"

text \<open>
  \<^verbatim>\<open>x ** k\<close> for a Python int \<open>k\<close>: \<^verbatim>\<open>x ** 0\<close> is 1 for every \<open>x\<close>, also for \<^verbatim>\<open>NaN\<close>, and
  \<^verbatim>\<open>NaN ** k\<close> is \<^verbatim>\<open>NaN\<close> for every other \<open>k\<close>.
\<close>

definition fl_pow :: "(fl \<Rightarrow> int \<Rightarrow> fl) \<Rightarrow> fl \<Rightarrow> int \<Rightarrow> fl" where
  "fl_pow p x k = (if k = 0 then Fin 1 else if x = NaN then NaN else p x k)"

subsection \<open>The pandas operations on a column\<close>

text \<open>
  The operations are those of pandas (the code calls them with their default arguments);
  a column is the list of its values in row order, and all of them are positional. They
  can raise: the \<^verbatim>\<open>KeyError\<close> of a column that the frame does not have, the \<^verbatim>\<open>ValueError\<close>
  of a negative window, and the \<^verbatim>\<open>OverflowError\<close> of a number of periods or a window that
  does not fit a 64-bit integer. \<^verbatim>\<open>run_quantfit\<close> runs after the validator, which leaves a Python
  int in the option of every transform other than \<^verbatim>\<open>'None'\<close>; an option that is not an int
  is outside the model (\<open>NotValidated\<close>).
\<close>

datatype run_error = FrameKeyError string | WindowValueError | OverflowError | NotValidated

definition int64 :: "int \<Rightarrow> bool" where
  "int64 k = (- (2 ^ 63) \<le> k \<and> k < 2 ^ 63)"

text \<open>
  \<^verbatim>\<open>Series.shift(periods)\<close>: row \<open>t\<close> holds the value of row \<open>t - periods\<close>, or \<^verbatim>\<open>NaN\<close> where
  there is no such row.
\<close>

definition shifted :: "int \<Rightarrow> fl list \<Rightarrow> fl list" where
  "shifted periods x =
     map (\<lambda>t. let j = int t - periods
               in if 0 \<le> j \<and> j < int (length x) then x ! nat j else NaN)
       [0..<length x]"

definition shift :: "int \<Rightarrow> fl list \<Rightarrow> run_error + fl list" where
  "shift periods x = (if int64 periods then Inr (shifted periods x) else Inl OverflowError)"

text \<open>\<^verbatim>\<open>Series.diff(periods)\<close>: the column minus its shift.\<close>

definition diff :: "arith \<Rightarrow> int \<Rightarrow> fl list \<Rightarrow> run_error + fl list" where
  "diff ar periods x =
     (case shift periods x of
        Inl e \<Rightarrow> Inl e
      | Inr s \<Rightarrow> Inr (map2 (fl_sub (rnd ar)) x s))"

text \<open>
  \<^verbatim>\<open>Series.pct_change(periods)\<close>, whose default \<^verbatim>\<open>fill_method='pad'\<close> first replaces every
  \<^verbatim>\<open>NaN\<close> by the last value before it that is not \<^verbatim>\<open>NaN\<close> (\<^verbatim>\<open>fillna(method='pad')\<close>), and
  then returns \<^verbatim>\<open>data.div(data.shift(periods)) - 1\<close>.
\<close>

fun pad_from :: "fl \<Rightarrow> fl list \<Rightarrow> fl list" where
  "pad_from prev [] = []"
| "pad_from prev (v # x) = (if v = NaN then prev # pad_from prev x else v # pad_from v x)"

definition pad :: "fl list \<Rightarrow> fl list" where
  "pad x = pad_from NaN x"

definition pct_change :: "arith \<Rightarrow> int \<Rightarrow> fl list \<Rightarrow> run_error + fl list" where
  "pct_change ar periods x =
     (let data = pad x
      in case shift periods data of
           Inl e \<Rightarrow> Inl e
         | Inr s \<Rightarrow>
             Inr (map2 (\<lambda>a b. fl_sub (rnd ar) (fl_div (rnd ar) a b) (Fin 1)) data s))"

text \<open>
  \<^verbatim>\<open>Series.rolling(window=w).mean()\<close>, with \<^verbatim>\<open>min_periods\<close> at its default \<open>w\<close>. pandas takes
  an infinity of the column for a missing value here. Row \<open>t\<close> is \<^verbatim>\<open>NaN\<close> when the \<open>w\<close> rows
  ending at \<open>t\<close> are not all there or one of them is missing (also for \<open>w = 0\<close>), and
  otherwise the value \<open>meanf\<close> of the running mean.
\<close>

definition rolling_mean :: "arith \<Rightarrow> nat \<Rightarrow> fl list \<Rightarrow> fl list" where
  "rolling_mean ar w x =
     map (\<lambda>t. if w = 0 \<or> t + 1 < w then NaN
               else if \<exists>v \<in> set (take w (drop (t + 1 - w) x)). v = NaN \<or> is_inf v then NaN
               else meanf ar w (take (t + 1) x))
       [0..<length x]"

subsection \<open>The loop over the regressors\<close>

text \<open>\<^verbatim>\<open>reg_long.split('_trans_')[0]\<close>: the text before the first \<^verbatim>\<open>'_trans_'\<close>.\<close>

fun split_head :: "string \<Rightarrow> string \<Rightarrow> string" where
  "split_head sep [] = []"
| "split_head sep (c # cs) = (if prefix sep (c # cs) then [] else c # split_head sep cs)"

text \<open>The data frame is the association list of its columns.\<close>

type_synonym frame = "(string \<times> fl list) list"

definition with_option :: "pyval \<Rightarrow> (int \<Rightarrow> run_error + 'a) \<Rightarrow> run_error + 'a" where
  "with_option opt f = (case opt of PInt k \<Rightarrow> f k | _ \<Rightarrow> Inl NotValidated)"

text \<open>\<^verbatim>\<open>df_quantfit[reg_long] = f(df_quantfit[reg_short])\<close>.\<close>

definition assign_column ::
  "frame \<Rightarrow> string \<Rightarrow> string \<Rightarrow> (fl list \<Rightarrow> run_error + fl list) \<Rightarrow> run_error + frame" where
  "assign_column df reg_long reg_short f =
     (case map_of df reg_short of
        None \<Rightarrow> Inl (FrameKeyError reg_short)
      | Some x \<Rightarrow>
          (case f x of Inl e \<Rightarrow> Inl e | Inr y \<Rightarrow> Inr (AList.update reg_long y df)))"

text \<open>
  The body of the loop: the chain of \<^verbatim>\<open>if\<close>/\<^verbatim>\<open>elif\<close> on the transform, with no \<^verbatim>\<open>else\<close>, so
  that another transform leaves the frame as it is.
\<close>

definition transform_regressor ::
  "arith \<Rightarrow> regdict \<Rightarrow> string \<Rightarrow> frame \<Rightarrow> run_error + frame" where
  "transform_regressor ar regs reg_long df =
     (let reg_short = split_head ''_trans_'' reg_long
      in case map_of regs reg_long of
           None \<Rightarrow> Inl (FrameKeyError reg_long)
         | Some spec \<Rightarrow>
             if transform spec = ''None'' then
               assign_column df reg_long reg_short (\<lambda>x. Inr x)
             else if transform spec = ''Lagged'' then
               assign_column df reg_long reg_short
                 (\<lambda>x. with_option (option spec) (\<lambda>k. shift k x))
             else if transform spec = ''MVA'' then
               assign_column df reg_long reg_short
                 (\<lambda>x. with_option (option spec)
                    (\<lambda>k. if k < 0 then Inl WindowValueError
                         else if \<not> int64 k then Inl OverflowError
                         else Inr (rolling_mean ar (nat k) x)))
             else if transform spec = ''Power'' then
               assign_column df reg_long reg_short
                 (\<lambda>x. with_option (option spec)
                    (\<lambda>k. Inr (map (\<lambda>v. fl_pow (powf ar) v k) x)))
             else if transform spec = ''Diff'' then
               assign_column df reg_long reg_short
                 (\<lambda>x. with_option (option spec) (\<lambda>k. diff ar k x))
             else if transform spec = ''ChangeRate'' then
               assign_column df reg_long reg_short
                 (\<lambda>x. with_option (option spec) (\<lambda>k. pct_change ar k x))
             else Inr df)"

fun transform_regressors ::
  "arith \<Rightarrow> regdict \<Rightarrow> string list \<Rightarrow> frame \<Rightarrow> run_error + frame" where
  "transform_regressors ar regs [] df = Inr df"
| "transform_regressors ar regs (reg_long # rest) df =
     (case transform_regressor ar regs reg_long df of
        Inl e \<Rightarrow> Inl e
      | Inr df' \<Rightarrow> transform_regressors ar regs rest df')"

section \<open>Properties of the validator\<close>

lemma bind_Inl [simp]: "bind (Inl e) f = Inl e"
  by (simp add: bind_def)

lemma bind_Inr [simp]: "bind (Inr x) f = f x"
  by (simp add: bind_def)

lemma bind_eq_Inr: "bind m f = Inr y \<longleftrightarrow> (\<exists>x. m = Inr x \<and> f x = Inr y)"
  by (cases m) simp_all

lemma show_message_halt [simp]: "show_message msg True shown = Inl (Halt msg)"
  by (simp add: show_message_def)

lemma show_message_go_on [simp]: "show_message msg False shown = Inr (shown @ [msg])"
  by (simp add: show_message_def)

lemma check_necessary_ok: "set vs \<subseteq> set val \<Longrightarrow> check_necessary vs val shown = Inr shown"
  by (induction vs) auto

lemma check_necessary_halt:
  "\<not> set vs \<subseteq> set val \<Longrightarrow> \<exists>v. v \<in> set vs \<and> v \<notin> set val \<and> check_necessary vs val shown = Inl (Halt (QuantlistMustInclude v val))"
  by (induction vs) auto

lemma check_quantlist_ok:
  "(\<forall>q\<in>set val. 0 < q \<and> q < 1) \<Longrightarrow> set necessary_vals \<subseteq> set val \<Longrightarrow> check_quantlist val shown = Inr shown"
  by (auto simp: check_quantlist_def check_necessary_ok list_all_iff)

lemma check_quantlist_halt:
  "\<not> ((\<forall>q\<in>set val. 0 < q \<and> q < 1) \<and> set necessary_vals \<subseteq> set val) \<Longrightarrow> \<exists>m. check_quantlist val shown = Inl (Halt m)"
  using check_necessary_halt[of necessary_vals val shown]
  by (auto simp: check_quantlist_def list_all_iff)

lemma check_keys_exist_eq:
  "check_keys_exist False d keys shown =
     Inr (shown @ map KeyNotFound (filter (\<lambda>k. \<not> has_key d k) keys))"
  by (induction keys arbitrary: shown) auto

lemma check_keys_exist_present:
  "\<forall>k\<in>set keys. has_key d k \<Longrightarrow> check_keys_exist h d keys shown = Inr shown"
  by (induction keys) auto

lemma check_keys_exist_halts:
  "\<forall>k'\<in>set pre. has_key d k' \<Longrightarrow> \<not> has_key d k \<Longrightarrow>
   check_keys_exist True d (pre @ k # post) shown = Inl (Halt (KeyNotFound k))"
  by (induction pre) auto

lemma check_keys_exist_error:
  "check_keys_exist h d keys shown = Inl e \<Longrightarrow> \<exists>k. e = Halt (KeyNotFound k)"
proof (induction keys arbitrary: shown)
  case Nil
  then show ?case by simp
next
  case (Cons key keys)
  show ?case
  proof (cases "has_key d key")
    case True
    with Cons show ?thesis by simp
  next
    case False
    show ?thesis
    proof (cases h)
      case True
      with False Cons.prems show ?thesis by auto
    next
      case h: False
      with False Cons show ?thesis by simp
    qed
  qed
qed

lemma check_keys_exist_Inr:
  "check_keys_exist h d keys shown = Inr s \<Longrightarrow>
   s = shown @ map KeyNotFound (filter (\<lambda>k. \<not> has_key d k) keys)"
proof (induction keys arbitrary: shown)
  case Nil
  then show ?case by simp
next
  case (Cons key keys)
  show ?case
  proof (cases "has_key d key")
    case True
    with Cons show ?thesis by simp
  next
    case False
    show ?thesis
    proof (cases h)
      case True
      with False Cons.prems show ?thesis by simp
    next
      case h: False
      with False Cons.prems have "check_keys_exist h d keys (shown @ [KeyNotFound key]) = Inr s"
        by simp
      from Cons.IH [OF this] False show ?thesis by simp
    qed
  qed
qed

lemma check_parameters_quantfit_eq:
  "check_parameters_quantfit False sn d keys =
     check_values sn keys (d, map KeyNotFound (filter (\<lambda>k. \<not> has_key d k) keys))"
  by (simp add: check_parameters_quantfit_def check_keys_exist_eq)

lemma check_value_quantlist:
  "quantlist d = Some val \<Longrightarrow>
   check_value sn ''quantlist'' (d, shown) = bind (check_quantlist val shown) (\<lambda>shown. Inr (d, shown))"
  by (simp add: check_value_def)

lemma bind_assoc: "bind (bind m f) g = bind m (\<lambda>x. bind (f x) g)"
  by (cases m) simp_all

lemma check_values_quantlist:
  "quantlist d = Some val \<Longrightarrow>
   check_values sn (''quantlist'' # keys) (d, shown) =
     bind (check_quantlist val shown) (\<lambda>shown. check_values sn keys (d, shown))"
  by (simp only: check_values.simps check_value_quantlist bind_assoc bind_Inr)

lemma validator_quantlist_halt:
  assumes "quantlist d = Some val"
    and "\<And>shown. \<exists>m. check_quantlist val shown = Inl (Halt m)"
  shows "\<exists>m. check_parameters_quantfit h sn d (''quantlist'' # keys) = Inl (Halt m)"
proof (cases "check_keys_exist h d (''quantlist'' # keys) []")
  case (Inl e)
  from check_keys_exist_error [OF Inl] obtain k where "e = Halt (KeyNotFound k)" ..
  with Inl show ?thesis
    by (simp add: check_parameters_quantfit_def)
next
  case (Inr s)
  obtain m where "check_quantlist val s = Inl (Halt m)"
    using assms(2) by blast
  then have "check_parameters_quantfit h sn d (''quantlist'' # keys) = Inl (Halt m)"
    unfolding check_parameters_quantfit_def Inr
    by (simp only: bind_Inr check_values_quantlist [OF assms(1)] bind_Inl)
  then show ?thesis ..
qed


lemma check_quantlist_Inr: "check_quantlist val shown = Inr shown' \<Longrightarrow> shown' = shown"
proof (cases "(\<forall>q\<in>set val. 0 < q \<and> q < 1) \<and> set necessary_vals \<subseteq> set val")
  case True
  then have "check_quantlist val shown = Inr shown"
    using check_quantlist_ok by blast
  then show "check_quantlist val shown = Inr shown' \<Longrightarrow> shown' = shown" by simp
next
  case False
  then obtain m where "check_quantlist val shown = Inl (Halt m)"
    using check_quantlist_halt by blast
  then show "check_quantlist val shown = Inr shown' \<Longrightarrow> shown' = shown" by simp
qed

lemma check_regressor_invalid:
  "transform spec \<notin> set valid_transforms \<Longrightarrow>
   check_regressor regressor spec shown = Inl (Halt (TransformNotValid regressor (transform spec)))"
  by (simp add: check_regressor_def)

lemma check_regressor_valid:
  "transform spec \<in> set valid_transforms \<Longrightarrow>
   check_regressor regressor spec shown =
     (if transform spec = ''None'' then
        (if option spec \<noteq> PNone
         then Inl (Halt (OptionMustNotBeSet regressor (transform spec)))
         else Inr (spec, shown))
      else if option_not_int (option spec)
           then Inl (Halt (OptionMustBeInt regressor (transform spec) (option spec)))
           else Inr (spec\<lparr>option := option_as_int (option spec)\<rparr>, shown))"
  by (auto simp: check_regressor_def valid_transforms_def option_transforms_def)

lemma check_regressor_Inr:
  assumes "check_regressor regressor spec shown = Inr (spec', shown')"
  shows "shown' = shown \<and> transform spec \<in> set valid_transforms \<and>
         spec' = (if transform spec \<in> set option_transforms
                  then spec\<lparr>option := option_as_int (option spec)\<rparr> else spec)"
proof (cases "transform spec \<in> set valid_transforms")
  case False
  with assms show ?thesis by (simp add: check_regressor_invalid)
next
  case True
  have "transform spec \<in> set option_transforms \<longleftrightarrow> transform spec \<noteq> ''None''"
    using True by (auto simp: valid_transforms_def option_transforms_def)
  with assms True show ?thesis
    by (auto simp: check_regressor_valid split: if_splits)
qed

lemma check_regressors_Inr:
  "check_regressors regs shown = Inr (regs', shown') \<Longrightarrow>
   shown' = shown \<and>
   regs' = map (\<lambda>(r, spec). (r, if transform spec \<in> set option_transforms
                                then spec\<lparr>option := option_as_int (option spec)\<rparr> else spec)) regs \<and>
   (\<forall>(r, spec) \<in> set regs. transform spec \<in> set valid_transforms)"
proof (induction regs arbitrary: regs' shown shown')
  case Nil
  then show ?case by simp
next
  case (Cons p regs)
  obtain r spec where p: "p = (r, spec)" by (cases p)
  from Cons.prems obtain spec1 s1 where 1: "check_regressor r spec shown = Inr (spec1, s1)"
    by (cases "check_regressor r spec shown") (auto simp: p)
  from Cons.prems 1 obtain rest1 s2 where 2: "check_regressors regs s1 = Inr (rest1, s2)"
    and 3: "regs' = (r, spec1) # rest1" "shown' = s2"
    by (cases "check_regressors regs s1") (auto simp: p)
  from check_regressor_Inr [OF 1] Cons.IH [OF 2] 3 show ?case
    by (simp add: p)
qed

lemma check_regressors_Inl:
  "(r, spec) \<in> set regs \<Longrightarrow> transform spec \<notin> set valid_transforms \<Longrightarrow>
   \<exists>e. check_regressors regs shown = Inl e"
proof (cases "check_regressors regs shown")
  case (Inl e)
  then show ?thesis by blast
next
  case (Inr res)
  assume a: "(r, spec) \<in> set regs" "transform spec \<notin> set valid_transforms"
  obtain regs' s' where "res = (regs', s')" by (cases res)
  with Inr check_regressors_Inr [of regs shown regs' s'] a show ?thesis by auto
qed


lemma check_necessary_error:
  "check_necessary vs val shown = Inl e \<Longrightarrow> \<exists>m. e = Halt m"
  by (induction vs) (auto split: if_splits)

lemma check_quantlist_error:
  "check_quantlist val shown = Inl e \<Longrightarrow> \<exists>m. e = Halt m"
  by (auto simp: check_quantlist_def dest: check_necessary_error split: if_splits)

lemma check_regressor_error:
  "check_regressor regressor spec shown = Inl e \<Longrightarrow> \<exists>m. e = Halt m"
  by (cases "transform spec \<in> set valid_transforms")
    (auto simp: check_regressor_valid check_regressor_invalid split: if_splits)

lemma check_regressors_error:
  "check_regressors regs shown = Inl e \<Longrightarrow> \<exists>m. e = Halt m"
proof (induction regs arbitrary: shown)
  case Nil
  then show ?case by simp
next
  case (Cons p regs)
  obtain r spec where p: "p = (r, spec)" by (cases p)
  show ?case
  proof (cases "check_regressor r spec shown")
    case (Inl e')
    with Cons.prems p have "e' = e" by simp
    with Inl check_regressor_error show ?thesis by blast
  next
    case (Inr res)
    obtain spec1 s1 where res: "res = (spec1, s1)" by (cases res)
    show ?thesis
    proof (cases "check_regressors regs s1")
      case (Inl e')
      with Cons.prems p Inr res have "e' = e" by simp
      with Inl Cons.IH show ?thesis by blast
    next
      case r2: (Inr res2)
      with Cons.prems p Inr res show ?thesis by (cases res2) simp
    qed
  qed
qed

lemma str_find_sheet_quantreg: "str_find ''sheet_quantreg'' ''sheet_'' = 0"
  by (simp add: str_find_def)

lemma str_find_sheet_cond_quant: "str_find ''sheet_cond_quant'' ''sheet_'' = 0"
  by (simp add: str_find_def)

lemma check_sheet_input:
  "check_sheet sn ''sheet_input'' val (d, shown) =
     (if val = PNone then
        (if ''Output_partitions'' \<notin> set sn
         then Inl (Halt (InputSheetDoesNotExist ''Output_partitions''))
         else Inr (set_cell d ''sheet_input'' (PStr ''Output_partitions''), shown))
      else Inr (d, shown))"
  by (simp add: check_sheet_def Let_def)

lemma check_sheet_other:
  "key \<noteq> ''sheet_input'' \<Longrightarrow>
   check_sheet sn key val (d, shown) =
     (if str_find key ''sheet_'' \<noteq> - 1 then
        (case val of
           PNone \<Rightarrow>
             (if key = ''sheet_quantreg''
              then Inr (set_cell d key (PStr ''Quant reg coefficients''), shown)
              else if key = ''sheet_cond_quant''
              then Inr (set_cell d key (PStr ''Conditional quantiles''), shown)
              else Inl (Halt (NoSheetShouldExist key)))
         | PStr s \<Rightarrow>
             (if s \<in> set input_sheets then Inl (Halt (SameAsInputSheet key s))
              else Inr (d, shown))
         | _ \<Rightarrow> Inr (d, shown))
      else Inr (d, shown))"
  by (cases val) (simp_all add: check_sheet_def)

lemma check_sheet_error:
  assumes "check_sheet sn key val (d, shown) = Inl e"
  shows "\<exists>m. e = Halt m"
proof (cases e)
  case (Halt m)
  then show ?thesis by blast
next
  case (KeyError k)
  show ?thesis
  proof (cases "key = ''sheet_input''")
    case True
    with assms KeyError show ?thesis
      by (simp add: check_sheet_input split: if_splits)
  next
    case False
    with assms KeyError show ?thesis
      by (cases val) (simp_all add: check_sheet_other split: if_splits)
  qed
qed

lemma check_sheet_quantreg:
  "check_sheet sn ''sheet_quantreg'' PNone (d, shown) =
     Inr (set_cell d ''sheet_quantreg'' (PStr ''Quant reg coefficients''), shown)"
  by (simp add: check_sheet_other str_find_sheet_quantreg)

lemma check_sheet_cond_quant:
  "check_sheet sn ''sheet_cond_quant'' PNone (d, shown) =
     Inr (set_cell d ''sheet_cond_quant'' (PStr ''Conditional quantiles''), shown)"
  by (simp add: check_sheet_other str_find_sheet_cond_quant)

lemma check_sheet_unchanged:
  assumes "check_sheet sn key val (d, shown) = Inr (d', shown')"
    and "val \<noteq> PNone \<or> (key \<noteq> ''sheet_input'' \<and> key \<noteq> ''sheet_quantreg'' \<and> key \<noteq> ''sheet_cond_quant'')"
  shows "shown' = shown \<and> d' = d"
proof (cases "key = ''sheet_input''")
  case True
  with assms show ?thesis
    by (simp add: check_sheet_input split: if_splits)
next
  case False
  with assms show ?thesis
    by (cases val) (simp_all add: check_sheet_other split: if_splits)
qed

lemma check_sheet_Inr:
  assumes "check_sheet sn key val (d, shown) = Inr (d', shown')"
  shows "shown' = shown \<and>
   d' = (if val = PNone \<and> key = ''sheet_input''
         then set_cell d key (PStr ''Output_partitions'')
         else if val = PNone \<and> key = ''sheet_quantreg''
         then set_cell d key (PStr ''Quant reg coefficients'')
         else if val = PNone \<and> key = ''sheet_cond_quant''
         then set_cell d key (PStr ''Conditional quantiles'')
         else d)"
proof -
  consider (unchanged) "val \<noteq> PNone \<or> (key \<noteq> ''sheet_input'' \<and> key \<noteq> ''sheet_quantreg'' \<and> key \<noteq> ''sheet_cond_quant'')"
    | (input) "val = PNone" "key = ''sheet_input''"
    | (quantreg) "val = PNone" "key = ''sheet_quantreg''"
    | (cond_quant) "val = PNone" "key = ''sheet_cond_quant''"
    by blast
  then show ?thesis
  proof cases
    case unchanged
    from check_sheet_unchanged [OF assms unchanged] unchanged show ?thesis by auto
  next
    case input
    with assms show ?thesis by (simp add: check_sheet_input split: if_splits)
  next
    case quantreg
    with assms show ?thesis by (simp add: check_sheet_quantreg)
  next
    case cond_quant
    with assms show ?thesis by (simp add: check_sheet_cond_quant)
  qed
qed

lemma check_value_absent:
  "\<not> has_key d key \<Longrightarrow> check_value sn key (d, shown) = Inl (KeyError key)"
  by (auto simp: has_key_def check_value_def split: if_splits)

lemma bind_eq_Inl: "bind m f = Inl e \<longleftrightarrow> m = Inl e \<or> (\<exists>x. m = Inr x \<and> f x = Inl e)"
  by (cases m) simp_all

lemma check_value_error:
  assumes "check_value sn key (d, shown) = Inl e"
  shows "(\<exists>m. e = Halt m) \<or> (e = KeyError key \<and> \<not> has_key d key)"
proof (cases "has_key d key")
  case False
  with assms show ?thesis by (simp add: check_value_absent)
next
  case True
  consider "key = ''quantlist''" | "key = ''regressors''"
    | "key \<noteq> ''quantlist''" "key \<noteq> ''regressors''" by blast
  then have "\<exists>m. e = Halt m"
  proof cases
    case 1
    with assms True obtain val where "check_quantlist val shown = Inl e"
      by (auto simp: check_value_def has_key_def bind_eq_Inl)
    then show ?thesis by (rule check_quantlist_error)
  next
    case 2
    with assms True obtain val where "check_regressors val shown = Inl e"
      by (auto simp: check_value_def has_key_def bind_eq_Inl)
    then show ?thesis by (rule check_regressors_error)
  next
    case 3
    with assms True obtain val where "check_sheet sn key val (d, shown) = Inl e"
      by (auto simp: check_value_def has_key_def)
    then show ?thesis by (rule check_sheet_error)
  qed
  then show ?thesis ..
qed

lemma check_value_quantlist_Inr:
  "check_value sn ''quantlist'' (d, shown) = Inr st \<Longrightarrow> st = (d, shown)"
  by (auto simp: check_value_def bind_eq_Inr dest: check_quantlist_Inr split: option.splits)

lemma check_value_regressors_Inr:
  assumes "check_value sn ''regressors'' (d, shown) = Inr st"
  shows "\<exists>regs. regressors d = Some regs \<and>
           check_regressors regs shown = Inr (map (\<lambda>(r, spec). (r, normalised spec)) regs, shown) \<and>
           st = (d\<lparr>regressors := Some (map (\<lambda>(r, spec). (r, normalised spec)) regs)\<rparr>, shown)"
proof -
  from assms obtain regs where regs: "regressors d = Some regs"
    by (cases "regressors d") (simp_all add: check_value_def)
  with assms obtain regs' s' where c: "check_regressors regs shown = Inr (regs', s')"
    and st: "st = (d\<lparr>regressors := Some regs'\<rparr>, s')"
    by (auto simp: check_value_def bind_eq_Inr)
  from check_regressors_Inr [OF c] c st regs show ?thesis by simp
qed

lemma check_value_sheet_Inr:
  assumes "key \<noteq> ''quantlist''" "key \<noteq> ''regressors''"
    and "check_value sn key (d, shown) = Inr st"
  shows "\<exists>val. map_of (cells d) key = Some val \<and>
           st = (if val = PNone \<and> key = ''sheet_input''
                 then set_cell d key (PStr ''Output_partitions'')
                 else if val = PNone \<and> key = ''sheet_quantreg''
                 then set_cell d key (PStr ''Quant reg coefficients'')
                 else if val = PNone \<and> key = ''sheet_cond_quant''
                 then set_cell d key (PStr ''Conditional quantiles'')
                 else d, shown)"
proof -
  from assms obtain val where val: "map_of (cells d) key = Some val"
    by (cases "map_of (cells d) key") (simp_all add: check_value_def)
  with assms have c: "check_sheet sn key val (d, shown) = Inr st"
    by (simp add: check_value_def)
  obtain d' s' where st: "st = (d', s')" by (cases st)
  from check_sheet_Inr [OF c [unfolded st]] val st show ?thesis by simp
qed

lemma has_key_set_cell:
  "map_of (cells d) key = Some val \<Longrightarrow> has_key (set_cell d key v) k = has_key d k"
  by (auto simp: has_key_def set_cell_def update_conv')

lemma check_value_has_key:
  assumes "check_value sn key (d, shown) = Inr (d', shown')"
  shows "shown' = shown \<and> has_key d key \<and> (\<forall>k. has_key d' k = has_key d k)"
proof -
  have p: "has_key d key"
    using assms check_value_absent [of d key sn shown] by auto
  consider "key = ''quantlist''" | "key = ''regressors''"
    | "key \<noteq> ''quantlist''" "key \<noteq> ''regressors''" by blast
  then show ?thesis
  proof cases
    case 1
    with assms check_value_quantlist_Inr [of sn d shown] p show ?thesis by auto
  next
    case 2
    with assms check_value_regressors_Inr [of sn d shown] p show ?thesis
      by (auto simp: has_key_def)
  next
    case 3
    from check_value_sheet_Inr [OF 3 assms] obtain val c1 c2 c3 v1 v2 v3
      where v: "map_of (cells d) key = Some val"
        and st: "(d', shown') =
          (if c1 then set_cell d key v1 else if c2 then set_cell d key v2
           else if c3 then set_cell d key v3 else d, shown)"
      by blast
    from st have "shown' = shown" and "d' = d \<or> (\<exists>v. d' = set_cell d key v)"
      by (auto split: if_splits)
    with p has_key_set_cell [OF v] show ?thesis by auto
  qed
qed

lemma check_values_missing:
  "k \<in> set keys \<Longrightarrow> \<not> has_key d k \<Longrightarrow>
   \<exists>e. check_values sn keys (d, shown) = Inl e \<and>
       ((\<exists>m. e = Halt m) \<or> (\<exists>k'\<in>set keys. \<not> has_key d k' \<and> e = KeyError k'))"
proof (induction keys arbitrary: d shown)
  case Nil
  then show ?case by simp
next
  case (Cons key keys)
  show ?case
  proof (cases "check_value sn key (d, shown)")
    case (Inl e)
    with check_value_error [OF Inl] show ?thesis by auto
  next
    case (Inr st)
    obtain d' s' where st: "st = (d', s')" by (cases st)
    from check_value_has_key [OF Inr [unfolded st]]
    have h: "has_key d key" "\<And>k. has_key d' k = has_key d k" by auto
    with Cons.prems have "k \<in> set keys" "\<not> has_key d' k" by auto
    from Cons.IH [OF this, of s'] Inr st h show ?thesis by auto
  qed
qed

lemma check_values_Cons_Inr:
  "check_values sn (k # ks) st = Inr r \<Longrightarrow>
   \<exists>st'. check_value sn k st = Inr st' \<and> check_values sn ks st' = Inr r"
  by (simp add: bind_eq_Inr)

lemma validator_Inr_keys:
  assumes "check_parameters_quantfit h sn d keys = Inr r"
  shows "filter (\<lambda>k. \<not> has_key d k) keys = [] \<and> check_values sn keys (d, []) = Inr r"
proof -
  from assms obtain s where s: "check_keys_exist h d keys [] = Inr s"
    and v: "check_values sn keys (d, s) = Inr r"
    by (auto simp: check_parameters_quantfit_def bind_eq_Inr)
  have f: "filter (\<lambda>k. \<not> has_key d k) keys = []"
  proof (rule ccontr)
    assume "filter (\<lambda>k. \<not> has_key d k) keys \<noteq> []"
    then obtain k where "k \<in> set keys" "\<not> has_key d k"
      by (auto simp: filter_empty_conv)
    from check_values_missing [OF this, of sn s]
    obtain e where "check_values sn keys (d, s) = Inl e"
      by blast
    with v show False by simp
  qed
  from check_keys_exist_Inr [OF s] f have "s = []" by simp
  with f v show ?thesis by simp
qed

lemma sheet_step:
  assumes "map_of (cells d) key = Some val"
    and "d' = (if val = PNone then set_cell d key v else d)"
  shows "quantlist d' = quantlist d \<and> regressors d' = regressors d \<and>
         map fst (cells d') = map fst (cells d) \<and>
         (\<forall>k. map_of (cells d') k =
            (if k = key \<and> map_of (cells d) k = Some PNone then Some v else map_of (cells d) k))"
proof -
  from assms(1) have "key \<in> fst ` set (cells d)"
    by (metis map_of_eq_None_iff option.distinct(1))
  with assms show ?thesis
    by (auto simp: set_cell_def update_keys update_conv')
qed

lemma validator_Inr_regressors:
  assumes "check_parameters_quantfit h sn d quantfit_keys = Inr res"
  shows "\<exists>regs. regressors d = Some regs \<and>
           (\<forall>(r, spec) \<in> set regs. transform spec \<in> set valid_transforms)"
proof -
  from validator_Inr_keys [OF assms]
  have "check_values sn quantfit_keys (d, []) = Inr res"
    by simp
  then obtain st1 st2
    where 1: "check_value sn ''quantlist'' (d, []) = Inr st1"
      and 2: "check_value sn ''regressors'' st1 = Inr st2"
    unfolding quantfit_keys_def
    by (fastforce dest!: check_values_Cons_Inr)
  from check_value_quantlist_Inr [OF 1] have st1: "st1 = (d, [])" .
  from check_value_regressors_Inr [OF 2 [unfolded st1]] obtain regs
    where regs: "regressors d = Some regs"
      and c: "check_regressors regs [] = Inr (map (\<lambda>(r, spec). (r, normalised spec)) regs, [])"
    by blast
  from check_regressors_Inr [OF c] regs show ?thesis by blast
qed

lemma py_int_below_3: "py_int (6755399441055743 / 2251799813685248) = 2"
  by (simp add: py_int_def floor_eq_iff)

lemma check_regressor_accepts:
  "(\<exists>res. check_regressor regressor spec shown = Inr res) \<longleftrightarrow>
     (transform spec = ''None'' \<and> option spec = PNone) \<or>
     (transform spec \<in> set option_transforms \<and>
      (\<exists>x. option spec = PFloat x \<and> \<bar>of_int (py_int x) - x\<bar> \<le> lit_1E_5))"
proof (cases "transform spec \<in> set valid_transforms")
  case False
  then show ?thesis
    by (auto simp: check_regressor_invalid valid_transforms_def option_transforms_def)
next
  case True
  have o: "transform spec \<in> set option_transforms \<longleftrightarrow> transform spec \<noteq> ''None''"
    using True by (auto simp: valid_transforms_def option_transforms_def)
  have n: "\<not> option_not_int (option spec) \<longleftrightarrow>
      (\<exists>x. option spec = PFloat x \<and> \<bar>of_int (py_int x) - x\<bar> \<le> lit_1E_5)"
    by (cases "option spec") (simp_all add: option_not_int_def not_less)
  show ?thesis
  proof (cases "transform spec = ''None''")
    case t: True
    then show ?thesis
      using o by (simp add: check_regressor_valid [OF True])
  next
    case f: False
    then show ?thesis
      using o n by (cases "option_not_int (option spec)")
        (simp_all add: check_regressor_valid [OF True])
  qed
qed

lemma py_int_2_5: "py_int (5 / 2) = 2"
  by (simp add: py_int_def floor_eq_iff)

lemma option_2_5_halts:
  "check_regressor ''x_trans_0_Lagged'' \<lparr>transform = ''Lagged'', option = PFloat (5 / 2)\<rparr> [] =
     Inl (Halt (OptionMustBeInt ''x_trans_0_Lagged'' ''Lagged'' (PFloat (5 / 2))))"
  by (simp add: check_regressor_valid valid_transforms_def option_not_int_def py_int_2_5
      lit_1E_5_def)

lemma check_values_append:
  "check_values sn (pre @ rest) st = bind (check_values sn pre st) (check_values sn rest)"
proof (induction pre arbitrary: st)
  case Nil
  then show ?case by simp
next
  case (Cons key pre)
  show ?case
    by (cases "check_value sn key st") (simp_all add: Cons.IH)
qed

lemma check_values_has_key:
  "check_values sn keys (d, shown) = Inr (d', shown') \<Longrightarrow> has_key d' k = has_key d k"
proof (induction keys arbitrary: d shown)
  case Nil
  then show ?case by simp
next
  case (Cons key keys)
  from check_values_Cons_Inr [OF Cons.prems] obtain d1 s1
    where 1: "check_value sn key (d, shown) = Inr (d1, s1)"
      and 2: "check_values sn keys (d1, s1) = Inr (d', shown')"
    by force
  from check_value_has_key [OF 1] Cons.IH [OF 2] show ?case by simp
qed

lemma check_values_error_present:
  "\<forall>k\<in>set keys. has_key d k \<Longrightarrow> check_values sn keys (d, shown) = Inl e \<Longrightarrow> \<exists>m. e = Halt m"
proof (induction keys arbitrary: d shown)
  case Nil
  then show ?case by simp
next
  case (Cons key keys)
  show ?case
  proof (cases "check_value sn key (d, shown)")
    case (Inl e')
    with Cons.prems(2) have "e' = e" by simp
    with check_value_error [OF Inl] Cons.prems(1) show ?thesis by auto
  next
    case (Inr st)
    obtain d1 s1 where st: "st = (d1, s1)" by (cases st)
    from check_value_has_key [OF Inr [unfolded st]] Cons.prems(1)
    have p: "\<forall>k\<in>set keys. has_key d1 k" by simp
    from Cons.prems(2) Inr st have "check_values sn keys (d1, s1) = Inl e" by simp
    from Cons.IH [OF p this] show ?thesis .
  qed
qed

lemma check_values_first_absent:
  assumes "\<forall>k'\<in>set pre. has_key d k'" and "\<not> has_key d k"
  shows "check_values sn (pre @ k # post) (d, shown) =
           (case check_values sn pre (d, shown) of
              Inl e \<Rightarrow> Inl e
            | Inr st \<Rightarrow> Inl (KeyError k))"
proof (cases "check_values sn pre (d, shown)")
  case (Inl e)
  then show ?thesis by (simp add: check_values_append)
next
  case (Inr st)
  obtain d1 s1 where st: "st = (d1, s1)" by (cases st)
  from check_values_has_key [OF Inr [unfolded st]] assms(2) have "\<not> has_key d1 k" by simp
  then have "check_value sn k (d1, s1) = Inl (KeyError k)"
    by (rule check_value_absent)
  with Inr st show ?thesis by (simp add: check_values_append)
qed

lemma example_run:
  "check_parameters_quantfit h []
     \<lparr>quantlist = Some necessary_vals,
      regressors = Some [(''gdp_trans_0_Lagged'', \<lparr>transform = ''Lagged'', option = PFloat 2\<rparr>)],
      cells = [(''sheet_quantreg'', PNone), (''sheet_cond_quant'', PNone),
               (''sheet_input'', PStr ''Output_partitions'')]\<rparr>
     quantfit_keys =
   Inr (\<lparr>quantlist = Some necessary_vals,
      regressors = Some [(''gdp_trans_0_Lagged'', \<lparr>transform = ''Lagged'', option = PInt 2\<rparr>)],
      cells = [(''sheet_quantreg'', PStr ''Quant reg coefficients''),
               (''sheet_cond_quant'', PStr ''Conditional quantiles''),
               (''sheet_input'', PStr ''Output_partitions'')]\<rparr>, [])"
proof -
  let ?d = "\<lparr>quantlist = Some necessary_vals,
      regressors = Some [(''gdp_trans_0_Lagged'', \<lparr>transform = ''Lagged'', option = PFloat 2\<rparr>)],
      cells = [(''sheet_quantreg'', PNone), (''sheet_cond_quant'', PNone),
               (''sheet_input'', PStr ''Output_partitions'')]\<rparr>"
  have "\<forall>k\<in>set quantfit_keys. has_key ?d k"
    by (simp add: quantfit_keys_def has_key_def)
  then have "check_keys_exist h ?d quantfit_keys [] = Inr []"
    by (rule check_keys_exist_present)
  moreover have "check_values [] quantfit_keys (?d, []) =
    Inr (\<lparr>quantlist = Some necessary_vals,
      regressors = Some [(''gdp_trans_0_Lagged'', \<lparr>transform = ''Lagged'', option = PInt 2\<rparr>)],
      cells = [(''sheet_quantreg'', PStr ''Quant reg coefficients''),
               (''sheet_cond_quant'', PStr ''Conditional quantiles''),
               (''sheet_input'', PStr ''Output_partitions'')]\<rparr>, [])"
    by code_simp
  ultimately show ?thesis
    by (simp add: check_parameters_quantfit_def)
qed

lemma example_missing:
  "check_parameters_quantfit False []
     \<lparr>quantlist = Some necessary_vals, regressors = None,
      cells = [(''sheet_quantreg'', PNone), (''sheet_cond_quant'', PNone),
               (''sheet_input'', PStr ''Output_partitions'')]\<rparr>
     quantfit_keys = Inl (KeyError ''regressors'')"
  "check_parameters_quantfit True []
     \<lparr>quantlist = Some necessary_vals, regressors = None,
      cells = [(''sheet_quantreg'', PNone), (''sheet_cond_quant'', PNone),
               (''sheet_input'', PStr ''Output_partitions'')]\<rparr>
     quantfit_keys = Inl (Halt (KeyNotFound ''regressors''))"
  by code_simp+

section \<open>The claims about the validator\<close>

text \<open>
  C1. For every quantile list, the quantile check of the validator succeeds if and only
  if every quantile lies strictly between 0 and 1 and the five levels 0.10, 0.25, 0.50,
  0.75 and 0.90 are all in the list; otherwise it stops with a halting message. The
  whole validator, called with the keys of \<^verbatim>\<open>prerun_quantfit\<close>, can only succeed on such a
  list and halts on every other one.
\<close>

theorem quantlist_valid_iff:
  "(check_quantlist val shown = Inr shown \<longleftrightarrow>
      (\<forall>q\<in>set val. 0 < q \<and> q < 1) \<and> set necessary_vals \<subseteq> set val) \<and>
   (\<not> ((\<forall>q\<in>set val. 0 < q \<and> q < 1) \<and> set necessary_vals \<subseteq> set val) \<longrightarrow>
      (\<exists>m. check_quantlist val shown = Inl (Halt m))) \<and>
   (quantlist d = Some val \<longrightarrow>
      ((\<exists>r. check_parameters_quantfit halt_default sheetnames d quantfit_keys = Inr r) \<longrightarrow>
         (\<forall>q\<in>set val. 0 < q \<and> q < 1) \<and> set necessary_vals \<subseteq> set val) \<and>
      (\<not> ((\<forall>q\<in>set val. 0 < q \<and> q < 1) \<and> set necessary_vals \<subseteq> set val) \<longrightarrow>
         (\<exists>m. check_parameters_quantfit halt_default sheetnames d quantfit_keys = Inl (Halt m))))"
proof -
  let ?Q = "(\<forall>q\<in>set val. 0 < q \<and> q < 1) \<and> set necessary_vals \<subseteq> set val"
  have ok: "?Q \<Longrightarrow> check_quantlist val s = Inr s" for s
    using check_quantlist_ok by blast
  have halt: "\<not> ?Q \<Longrightarrow> \<exists>m. check_quantlist val s = Inl (Halt m)" for s
    using check_quantlist_halt by blast
  have a: "check_quantlist val shown = Inr shown \<longleftrightarrow> ?Q"
  proof (cases ?Q)
    case True
    with ok [of shown] show ?thesis by simp
  next
    case False
    with halt [of shown] show ?thesis by auto
  qed
  have b: "\<exists>m. check_parameters_quantfit halt_default sheetnames d quantfit_keys = Inl (Halt m)"
    if q: "quantlist d = Some val" and n: "\<not> ?Q"
    unfolding quantfit_keys_def
    by (rule validator_quantlist_halt [OF q]) (rule halt [OF n])
  have c: ?Q if q: "quantlist d = Some val"
    and r: "check_parameters_quantfit halt_default sheetnames d quantfit_keys = Inr r" for r
  proof (rule ccontr)
    assume "\<not> ?Q"
    from b [OF q this] r show False by auto
  qed
  have h: "\<not> ?Q \<longrightarrow> (\<exists>m. check_quantlist val shown = Inl (Halt m))"
    using halt [of shown] by blast
  have w: "quantlist d = Some val \<longrightarrow>
      ((\<exists>r. check_parameters_quantfit halt_default sheetnames d quantfit_keys = Inr r) \<longrightarrow> ?Q) \<and>
      (\<not> ?Q \<longrightarrow> (\<exists>m. check_parameters_quantfit halt_default sheetnames d quantfit_keys = Inl (Halt m)))"
    using b c by blast
  from a h w show ?thesis by (intro conjI)
qed

text \<open>
  The scenario of the spec: the list 0.10, 0.25, 0.50, 0.75 without 0.90 halts, and the
  five levels alone pass.
\<close>

theorem quantlist_valid_iff_witness:
  "(\<exists>m. check_quantlist [lit_0_10, lit_0_25, lit_0_50, lit_0_75] [] = Inl (Halt m)) \<and>
   check_quantlist [lit_0_10, lit_0_25, lit_0_50, lit_0_75, lit_0_90] [] = Inr []"
proof -
  have bad: "\<not> ((\<forall>q\<in>set [lit_0_10, lit_0_25, lit_0_50, lit_0_75]. 0 < q \<and> q < 1) \<and>
      set necessary_vals \<subseteq> set [lit_0_10, lit_0_25, lit_0_50, lit_0_75])"
    by (simp add: necessary_vals_def lit_0_10_def lit_0_25_def lit_0_50_def lit_0_75_def
        lit_0_90_def)
  have good: "(\<forall>q\<in>set [lit_0_10, lit_0_25, lit_0_50, lit_0_75, lit_0_90]. 0 < q \<and> q < 1) \<and>
      set necessary_vals \<subseteq> set [lit_0_10, lit_0_25, lit_0_50, lit_0_75, lit_0_90]"
    by (simp add: necessary_vals_def lit_0_10_def lit_0_25_def lit_0_50_def lit_0_75_def
        lit_0_90_def)
  from bad good
    quantlist_valid_iff [of "[lit_0_10, lit_0_25, lit_0_50, lit_0_75]" "[]"]
    quantlist_valid_iff [of "[lit_0_10, lit_0_25, lit_0_50, lit_0_75, lit_0_90]" "[]"]
  show ?thesis by blast
qed

text \<open>
  C2. An option that is within 1e-5 of an integer but just below it is rejected, because
  the check compares the option with its truncation \<^verbatim>\<open>int(option)\<close> and not with the
  nearest integer: the float 2.9999999999999996 (the value of \<^verbatim>\<open>0.3/0.1\<close>, that is
  \<open>3 - 2^-51\<close>) lies within 1e-5 of 3, and a \<^verbatim>\<open>Lagged\<close> regressor carrying it halts with
  the message that the option must be an int.
\<close>

theorem option_below_integer_halts:
  "\<bar>3 - (6755399441055743 / 2251799813685248 :: rat)\<bar> \<le> lit_1E_5 \<and>
   check_regressor ''x_trans_0_Lagged''
     \<lparr>transform = ''Lagged'', option = PFloat (6755399441055743 / 2251799813685248)\<rparr> [] =
     Inl (Halt (OptionMustBeInt ''x_trans_0_Lagged'' ''Lagged''
       (PFloat (6755399441055743 / 2251799813685248))))"
  by (simp add: check_regressor_valid valid_transforms_def option_not_int_def py_int_below_3
      lit_1E_5_def)

text \<open>
  C4 (amended). The validator assigns to the caller's dict. When it completes on the keys
  of \<^verbatim>\<open>prerun_quantfit\<close>, no message was shown, the quantile list is unchanged, the
  regressors keep their names, order and transforms, the option of every regressor with a
  transform other than \<^verbatim>\<open>'None'\<close> is replaced by its integer truncation, the keys of the
  sheet entries are unchanged, and a sheet entry is changed only where it was \<^verbatim>\<open>None\<close>
  under one of the three sheet keys, where it becomes the default name.
\<close>

theorem validator_effect:
  assumes "check_parameters_quantfit halt_default sn d quantfit_keys = Inr (d', shown)"
  shows "shown = [] \<and> quantlist d' = quantlist d \<and>
     regressors d' = map_option (map (\<lambda>(r, spec). (r, normalised spec))) (regressors d) \<and>
     map fst (cells d') = map fst (cells d) \<and>
     map_of (cells d') k =
       (if map_of (cells d) k = Some PNone \<and> k = ''sheet_input''
        then Some (PStr ''Output_partitions'')
        else if map_of (cells d) k = Some PNone \<and> k = ''sheet_quantreg''
        then Some (PStr ''Quant reg coefficients'')
        else if map_of (cells d) k = Some PNone \<and> k = ''sheet_cond_quant''
        then Some (PStr ''Conditional quantiles'')
        else map_of (cells d) k)"
proof -
  from validator_Inr_keys [OF assms]
  have "check_values sn quantfit_keys (d, []) = Inr (d', shown)"
    by simp
  then obtain st1 st2 st3 st4 st5
    where 1: "check_value sn ''quantlist'' (d, []) = Inr st1"
      and 2: "check_value sn ''regressors'' st1 = Inr st2"
      and 3: "check_value sn ''sheet_input'' st2 = Inr st3"
      and 4: "check_value sn ''sheet_quantreg'' st3 = Inr st4"
      and 5: "check_value sn ''sheet_cond_quant'' st4 = Inr st5"
      and 6: "st5 = (d', shown)"
    unfolding quantfit_keys_def
    by (fastforce dest!: check_values_Cons_Inr)
  from check_value_quantlist_Inr [OF 1] have st1: "st1 = (d, [])" .
  from check_value_regressors_Inr [OF 2 [unfolded st1]] obtain regs
    where regs: "regressors d = Some regs"
      and st2: "st2 = (d\<lparr>regressors := Some (map (\<lambda>(r, spec). (r, normalised spec)) regs)\<rparr>, [])"
    by blast
  define d2 where "d2 = d\<lparr>regressors := Some (map (\<lambda>(r, spec). (r, normalised spec)) regs)\<rparr>"
  from check_value_sheet_Inr [OF _ _ 3 [unfolded st2 d2_def [symmetric]]] obtain val3
    where v3: "map_of (cells d2) ''sheet_input'' = Some val3"
      and st3: "st3 = (if val3 = PNone then set_cell d2 ''sheet_input'' (PStr ''Output_partitions'') else d2, [])"
    by auto
  define d3 where "d3 = (if val3 = PNone then set_cell d2 ''sheet_input'' (PStr ''Output_partitions'') else d2)"
  from check_value_sheet_Inr [OF _ _ 4 [unfolded st3 d3_def [symmetric]]] obtain val4
    where v4: "map_of (cells d3) ''sheet_quantreg'' = Some val4"
      and st4: "st4 = (if val4 = PNone then set_cell d3 ''sheet_quantreg'' (PStr ''Quant reg coefficients'') else d3, [])"
    by auto
  define d4 where "d4 = (if val4 = PNone then set_cell d3 ''sheet_quantreg'' (PStr ''Quant reg coefficients'') else d3)"
  from check_value_sheet_Inr [OF _ _ 5 [unfolded st4 d4_def [symmetric]]] obtain val5
    where v5: "map_of (cells d4) ''sheet_cond_quant'' = Some val5"
      and st5: "st5 = (if val5 = PNone then set_cell d4 ''sheet_cond_quant'' (PStr ''Conditional quantiles'') else d4, [])"
    by auto
  from 6 st5 have d': "d' = (if val5 = PNone then set_cell d4 ''sheet_cond_quant'' (PStr ''Conditional quantiles'') else d4)"
    and shown: "shown = []" by simp_all
  have e2: "quantlist d2 = quantlist d" "cells d2 = cells d"
    "regressors d2 = map_option (map (\<lambda>(r, spec). (r, normalised spec))) (regressors d)"
    by (simp_all add: d2_def regs)
  note e3 = sheet_step [OF v3 d3_def]
  note e4 = sheet_step [OF v4 d4_def]
  note e5 = sheet_step [OF v5 d']
  have q: "quantlist d' = quantlist d"
    using e2 e3 e4 e5 by simp
  have r: "regressors d' = map_option (map (\<lambda>(r, spec). (r, normalised spec))) (regressors d)"
    using e2 e3 e4 e5 by simp
  have f: "map fst (cells d') = map fst (cells d)"
    using e2 e3 e4 e5 by simp
  have m5: "map_of (cells d') k =
      (if k = ''sheet_cond_quant'' \<and> map_of (cells d4) k = Some PNone
       then Some (PStr ''Conditional quantiles'') else map_of (cells d4) k)"
    using e5 by blast
  have m4: "map_of (cells d4) k =
      (if k = ''sheet_quantreg'' \<and> map_of (cells d3) k = Some PNone
       then Some (PStr ''Quant reg coefficients'') else map_of (cells d3) k)"
    using e4 by blast
  have "map_of (cells d3) k =
      (if k = ''sheet_input'' \<and> map_of (cells d2) k = Some PNone
       then Some (PStr ''Output_partitions'') else map_of (cells d2) k)"
    using e3 by blast
  then have m3: "map_of (cells d3) k =
      (if k = ''sheet_input'' \<and> map_of (cells d) k = Some PNone
       then Some (PStr ''Output_partitions'') else map_of (cells d) k)"
    unfolding e2(2) .
  have m: "map_of (cells d') k =
       (if map_of (cells d) k = Some PNone \<and> k = ''sheet_input''
        then Some (PStr ''Output_partitions'')
        else if map_of (cells d) k = Some PNone \<and> k = ''sheet_quantreg''
        then Some (PStr ''Quant reg coefficients'')
        else if map_of (cells d) k = Some PNone \<and> k = ''sheet_cond_quant''
        then Some (PStr ''Conditional quantiles'')
        else map_of (cells d) k)"
  proof -
    consider "k = ''sheet_input''" | "k = ''sheet_quantreg''" | "k = ''sheet_cond_quant''"
      | "k \<noteq> ''sheet_input''" "k \<noteq> ''sheet_quantreg''" "k \<noteq> ''sheet_cond_quant''"
      by blast
    then show ?thesis
    proof cases
      case 1
      with m5 m4 m3 show ?thesis by simp
    next
      case 2
      with m5 m4 m3 show ?thesis by simp
    next
      case 3
      with m5 m4 m3 show ?thesis by simp
    next
      case 4
      with m5 m4 m3 show ?thesis by simp
    qed
  qed
  from shown q r f m show ?thesis by (intro conjI)
qed

text \<open>
  C4, the claim as stated fails: on this dict the validator completes, whatever
  \<^verbatim>\<open>show_message\<close> does by default, and the dict it leaves differs from the one it was
  given, in the option of the regressor and in the two output sheet names.
\<close>

theorem validator_changes_dict:
  "check_parameters_quantfit False []
     \<lparr>quantlist = Some necessary_vals,
      regressors = Some [(''gdp_trans_0_Lagged'', \<lparr>transform = ''Lagged'', option = PFloat 2\<rparr>)],
      cells = [(''sheet_quantreg'', PNone), (''sheet_cond_quant'', PNone),
               (''sheet_input'', PStr ''Output_partitions'')]\<rparr>
     quantfit_keys =
   Inr (\<lparr>quantlist = Some necessary_vals,
      regressors = Some [(''gdp_trans_0_Lagged'', \<lparr>transform = ''Lagged'', option = PInt 2\<rparr>)],
      cells = [(''sheet_quantreg'', PStr ''Quant reg coefficients''),
               (''sheet_cond_quant'', PStr ''Conditional quantiles''),
               (''sheet_input'', PStr ''Output_partitions'')]\<rparr>, []) \<and>
   check_parameters_quantfit True []
     \<lparr>quantlist = Some necessary_vals,
      regressors = Some [(''gdp_trans_0_Lagged'', \<lparr>transform = ''Lagged'', option = PFloat 2\<rparr>)],
      cells = [(''sheet_quantreg'', PNone), (''sheet_cond_quant'', PNone),
               (''sheet_input'', PStr ''Output_partitions'')]\<rparr>
     quantfit_keys =
   Inr (\<lparr>quantlist = Some necessary_vals,
      regressors = Some [(''gdp_trans_0_Lagged'', \<lparr>transform = ''Lagged'', option = PInt 2\<rparr>)],
      cells = [(''sheet_quantreg'', PStr ''Quant reg coefficients''),
               (''sheet_cond_quant'', PStr ''Conditional quantiles''),
               (''sheet_input'', PStr ''Output_partitions'')]\<rparr>, []) \<and>
   \<lparr>quantlist = Some necessary_vals,
      regressors = Some [(''gdp_trans_0_Lagged'', \<lparr>transform = ''Lagged'', option = PInt 2\<rparr>)],
      cells = [(''sheet_quantreg'', PStr ''Quant reg coefficients''),
               (''sheet_cond_quant'', PStr ''Conditional quantiles''),
               (''sheet_input'', PStr ''Output_partitions'')]\<rparr> \<noteq>
   \<lparr>quantlist = Some necessary_vals,
      regressors = Some [(''gdp_trans_0_Lagged'', \<lparr>transform = ''Lagged'', option = PFloat 2\<rparr>)],
      cells = [(''sheet_quantreg'', PNone), (''sheet_cond_quant'', PNone),
               (''sheet_input'', PStr ''Output_partitions'')]\<rparr>"
  using example_run [of False] example_run [of True] by simp

text \<open>The effect on that dict, as the theorem gives it.\<close>

theorem validator_effect_witness:
  "quantlist \<lparr>quantlist = Some necessary_vals,
      regressors = Some [(''gdp_trans_0_Lagged'', \<lparr>transform = ''Lagged'', option = PInt 2\<rparr>)],
      cells = [(''sheet_quantreg'', PStr ''Quant reg coefficients''),
               (''sheet_cond_quant'', PStr ''Conditional quantiles''),
               (''sheet_input'', PStr ''Output_partitions'')]\<rparr> = Some necessary_vals \<and>
   map_of [(''sheet_quantreg'', PStr ''Quant reg coefficients''),
           (''sheet_cond_quant'', PStr ''Conditional quantiles''),
           (''sheet_input'', PStr ''Output_partitions'')] ''sheet_quantreg'' =
     Some (PStr ''Quant reg coefficients'')"
  using validator_effect [OF example_run, of "''sheet_quantreg''"] by simp

text \<open>
  C6. The validator halts on a regressor for its transform exactly when the transform is
  not one of \<^verbatim>\<open>'None'\<close>, \<^verbatim>\<open>'Lagged'\<close>, \<^verbatim>\<open>'MVA'\<close>, \<^verbatim>\<open>'Power'\<close>, \<^verbatim>\<open>'Diff'\<close>,
  \<^verbatim>\<open>'ChangeRate'\<close>; a declaration of a transform passes with some option exactly when
  the transform is one of the six; and a regressor with any other transform makes the
  loop over the regressors, and the whole validator, fail.
\<close>

theorem transform_kind_iff:
  "(check_regressor regressor spec shown =
      Inl (Halt (TransformNotValid regressor (transform spec))) \<longleftrightarrow>
        transform spec \<notin> set valid_transforms) \<and>
   ((\<exists>opt res. check_regressor regressor (spec\<lparr>option := opt\<rparr>) shown = Inr res) \<longleftrightarrow>
        transform spec \<in> set valid_transforms) \<and>
   (transform spec \<notin> set valid_transforms \<longrightarrow> (regressor, spec) \<in> set regs \<longrightarrow>
      (\<exists>m. check_regressors regs shown = Inl (Halt m)) \<and>
      (regressors d = Some regs \<longrightarrow>
         (\<exists>e. check_parameters_quantfit halt_default sheetnames d quantfit_keys = Inl e)))"
proof (intro conjI impI)
  show "check_regressor regressor spec shown =
      Inl (Halt (TransformNotValid regressor (transform spec))) \<longleftrightarrow>
        transform spec \<notin> set valid_transforms"
    by (cases "transform spec \<in> set valid_transforms")
      (simp_all add: check_regressor_valid check_regressor_invalid)
next
  show "(\<exists>opt res. check_regressor regressor (spec\<lparr>option := opt\<rparr>) shown = Inr res) \<longleftrightarrow>
        transform spec \<in> set valid_transforms"
  proof (cases "transform spec \<in> set valid_transforms")
    case False
    then show ?thesis by (simp add: check_regressor_invalid)
  next
    case True
    show ?thesis
    proof (cases "transform spec = ''None''")
      case n: True
      have "check_regressor regressor (spec\<lparr>option := PNone\<rparr>) shown =
          Inr (spec\<lparr>option := PNone\<rparr>, shown)"
        using True n by (simp add: check_regressor_valid)
      with True show ?thesis by blast
    next
      case n: False
      have "\<not> option_not_int (PFloat 1)"
        by (simp add: option_not_int_def py_int_def lit_1E_5_def)
      then have "check_regressor regressor (spec\<lparr>option := PFloat 1\<rparr>) shown =
          Inr (spec\<lparr>option := option_as_int (PFloat 1)\<rparr>, shown)"
        using True n by (simp add: check_regressor_valid)
      with True show ?thesis by blast
    qed
  qed
next
  assume a: "transform spec \<notin> set valid_transforms" "(regressor, spec) \<in> set regs"
  from check_regressors_Inl [OF a(2) a(1)] obtain e
    where e: "check_regressors regs shown = Inl e" by blast
  from check_regressors_error [OF e] e
  show "\<exists>m. check_regressors regs shown = Inl (Halt m)" by blast
next
  assume a: "transform spec \<notin> set valid_transforms" "(regressor, spec) \<in> set regs"
    and d: "regressors d = Some regs"
  show "\<exists>e. check_parameters_quantfit halt_default sheetnames d quantfit_keys = Inl e"
  proof (cases "check_parameters_quantfit halt_default sheetnames d quantfit_keys")
    case (Inl e)
    then show ?thesis by blast
  next
    case (Inr res)
    from validator_Inr_regressors [OF Inr] d a show ?thesis by auto
  qed
qed

theorem transform_kind_iff_witness:
  "check_regressor ''gdp_trans_0_Log'' \<lparr>transform = ''Log'', option = PNone\<rparr> [] =
     Inl (Halt (TransformNotValid ''gdp_trans_0_Log'' ''Log'')) \<and>
   (\<exists>m. check_regressors
      [(''gdp_trans_0_Log'', \<lparr>transform = ''Log'', option = PNone\<rparr>)] [] = Inl (Halt m)) \<and>
   (\<exists>opt res. check_regressor ''gdp_trans_0_MVA'' \<lparr>transform = ''MVA'', option = opt\<rparr> [] =
      Inr res)"
proof -
  have 1: "transform \<lparr>transform = ''Log'', option = PNone\<rparr> \<notin> set valid_transforms"
    by (simp add: valid_transforms_def)
  have 2: "transform \<lparr>transform = ''MVA'', option = PNone\<rparr> \<in> set valid_transforms"
    by (simp add: valid_transforms_def)
  have 3: "(''gdp_trans_0_Log'', \<lparr>transform = ''Log'', option = PNone\<rparr>) \<in>
      set [(''gdp_trans_0_Log'', \<lparr>transform = ''Log'', option = PNone\<rparr>)]"
    by simp
  from 1 3
    transform_kind_iff [of "''gdp_trans_0_Log''" "\<lparr>transform = ''Log'', option = PNone\<rparr>" "[]"
      "[(''gdp_trans_0_Log'', \<lparr>transform = ''Log'', option = PNone\<rparr>)]"]
  have a: "check_regressor ''gdp_trans_0_Log'' \<lparr>transform = ''Log'', option = PNone\<rparr> [] =
     Inl (Halt (TransformNotValid ''gdp_trans_0_Log'' ''Log''))"
    and b: "\<exists>m. check_regressors
      [(''gdp_trans_0_Log'', \<lparr>transform = ''Log'', option = PNone\<rparr>)] [] = Inl (Halt m)"
    by simp_all
  from 2 transform_kind_iff [of "''gdp_trans_0_MVA''" "\<lparr>transform = ''MVA'', option = PNone\<rparr>" "[]"]
  have c: "\<exists>opt res. check_regressor ''gdp_trans_0_MVA'' \<lparr>transform = ''MVA'', option = opt\<rparr> [] =
      Inr res"
    by simp
  from a b c show ?thesis by (intro conjI)
qed

text \<open>
  C9 (amended). When a key of \<open>keys\<close> is absent from the dict, the validator never
  completes, whatever \<^verbatim>\<open>show_message\<close> does by default. Let \<open>k\<close> be the first absent key,
  after the keys \<open>pre\<close>, which are there. If \<^verbatim>\<open>show_message\<close> returns by default, the first
  loop only shows a message for each absent key and goes on; the second loop then stops
  with the halting message of a rule that one of the keys \<open>pre\<close> violates, if there is
  one, and otherwise with the \<^verbatim>\<open>KeyError\<close> of \<^verbatim>\<open>dict_input_quantfit[key]\<close> at \<open>k\<close>. If
  \<^verbatim>\<open>show_message\<close> halts by default, the first loop stops at the message for \<open>k\<close>.
\<close>

theorem missing_key_stops:
  assumes "\<forall>k'\<in>set pre. has_key d k'" and "\<not> has_key d k"
  shows "check_keys_exist False d (pre @ k # post) shown =
           Inr (shown @ map KeyNotFound (filter (\<lambda>k. \<not> has_key d k) (pre @ k # post))) \<and>
         check_parameters_quantfit False sheetnames d (pre @ k # post) =
           (case check_values sheetnames pre
                   (d, map KeyNotFound (filter (\<lambda>k. \<not> has_key d k) (pre @ k # post))) of
              Inl e \<Rightarrow> Inl e
            | Inr st \<Rightarrow> Inl (KeyError k)) \<and>
         (\<forall>msgs e. check_values sheetnames pre (d, msgs) = Inl e \<longrightarrow> (\<exists>m. e = Halt m)) \<and>
         check_parameters_quantfit True sheetnames d (pre @ k # post) =
           Inl (Halt (KeyNotFound k)) \<and>
         (\<forall>halt_default res.
            check_parameters_quantfit halt_default sheetnames d (pre @ k # post) \<noteq> Inr res)"
proof -
  have 1: "check_keys_exist False d (pre @ k # post) shown =
      Inr (shown @ map KeyNotFound (filter (\<lambda>k. \<not> has_key d k) (pre @ k # post)))"
    by (rule check_keys_exist_eq)
  have 2: "check_parameters_quantfit False sheetnames d (pre @ k # post) =
      (case check_values sheetnames pre
              (d, map KeyNotFound (filter (\<lambda>k. \<not> has_key d k) (pre @ k # post))) of
         Inl e \<Rightarrow> Inl e
       | Inr st \<Rightarrow> Inl (KeyError k))"
    unfolding check_parameters_quantfit_eq
    by (rule check_values_first_absent [OF assms])
  have 3: "\<forall>msgs e. check_values sheetnames pre (d, msgs) = Inl e \<longrightarrow> (\<exists>m. e = Halt m)"
    using check_values_error_present [OF assms(1)] by blast
  have 4: "check_parameters_quantfit True sheetnames d (pre @ k # post) =
      Inl (Halt (KeyNotFound k))"
    by (simp add: check_parameters_quantfit_def check_keys_exist_halts [OF assms])
  have 5: "check_parameters_quantfit halt_default sheetnames d (pre @ k # post) \<noteq> Inr res"
    for halt_default res
  proof
    assume "check_parameters_quantfit halt_default sheetnames d (pre @ k # post) = Inr res"
    from validator_Inr_keys [OF this] assms(2) show False
      by (simp add: filter_empty_conv)
  qed
  from 1 2 3 4 5 show ?thesis by blast
qed

text \<open>
  C9, the claim as stated fails: on a dict without the key \<^verbatim>\<open>'regressors'\<close>, and with
  nothing else to object to, the validator stops: with a \<^verbatim>\<open>KeyError\<close> when \<^verbatim>\<open>show_message\<close>
  returns by default, and at the message itself when it halts by default.
\<close>

theorem missing_regressors_key_error:
  "check_parameters_quantfit False []
     \<lparr>quantlist = Some necessary_vals, regressors = None,
      cells = [(''sheet_quantreg'', PNone), (''sheet_cond_quant'', PNone),
               (''sheet_input'', PStr ''Output_partitions'')]\<rparr>
     quantfit_keys = Inl (KeyError ''regressors'') \<and>
   check_parameters_quantfit True []
     \<lparr>quantlist = Some necessary_vals, regressors = None,
      cells = [(''sheet_quantreg'', PNone), (''sheet_cond_quant'', PNone),
               (''sheet_input'', PStr ''Output_partitions'')]\<rparr>
     quantfit_keys = Inl (Halt (KeyNotFound ''regressors''))"
  using example_missing by simp

text \<open>
  The theorem on that dict: \<^verbatim>\<open>'quantlist'\<close> is there and passes, \<^verbatim>\<open>'regressors'\<close> is the
  first absent key.
\<close>

theorem missing_key_stops_witness:
  "check_keys_exist False
     \<lparr>quantlist = Some necessary_vals, regressors = None,
      cells = [(''sheet_quantreg'', PNone), (''sheet_cond_quant'', PNone),
               (''sheet_input'', PStr ''Output_partitions'')]\<rparr>
     quantfit_keys [] = Inr [KeyNotFound ''regressors''] \<and>
   check_parameters_quantfit False []
     \<lparr>quantlist = Some necessary_vals, regressors = None,
      cells = [(''sheet_quantreg'', PNone), (''sheet_cond_quant'', PNone),
               (''sheet_input'', PStr ''Output_partitions'')]\<rparr>
     quantfit_keys = Inl (KeyError ''regressors'')"
proof -
  let ?d = "\<lparr>quantlist = Some necessary_vals, regressors = None,
      cells = [(''sheet_quantreg'', PNone), (''sheet_cond_quant'', PNone),
               (''sheet_input'', PStr ''Output_partitions'')]\<rparr>"
  let ?post = "[''sheet_input'', ''sheet_quantreg'', ''sheet_cond_quant'']"
  have k: "quantfit_keys = [''quantlist''] @ ''regressors'' # ?post"
    by (simp add: quantfit_keys_def)
  have 1: "\<forall>k'\<in>set [''quantlist'']. has_key ?d k'"
    by (simp add: has_key_def)
  have 2: "\<not> has_key ?d ''regressors''"
    by (simp add: has_key_def)
  have 3: "filter (\<lambda>k. \<not> has_key ?d k) ([''quantlist''] @ ''regressors'' # ?post) =
      [''regressors'']"
    by (simp add: has_key_def)
  have 4: "check_values [] [''quantlist''] (?d, [KeyNotFound ''regressors'']) =
      Inr (?d, [KeyNotFound ''regressors''])"
    by code_simp
  from missing_key_stops [OF 1 2, of ?post "[]" "[]"]
  have a: "check_keys_exist False ?d ([''quantlist''] @ ''regressors'' # ?post) [] =
      Inr ([] @ map KeyNotFound
        (filter (\<lambda>k. \<not> has_key ?d k) ([''quantlist''] @ ''regressors'' # ?post)))"
    and b: "check_parameters_quantfit False [] ?d ([''quantlist''] @ ''regressors'' # ?post) =
      (case check_values [] [''quantlist'']
              (?d, map KeyNotFound
                 (filter (\<lambda>k. \<not> has_key ?d k) ([''quantlist''] @ ''regressors'' # ?post))) of
         Inl e \<Rightarrow> Inl e
       | Inr st \<Rightarrow> Inl (KeyError ''regressors''))"
    by blast+
  from a have a': "check_keys_exist False ?d quantfit_keys [] = Inr [KeyNotFound ''regressors'']"
    unfolding 3 k by simp
  from b have b': "check_parameters_quantfit False [] ?d quantfit_keys =
      Inl (KeyError ''regressors'')"
    unfolding 3 k list.map 4 by simp
  from a' b' show ?thesis ..
qed

text \<open>
  C10. The five levels are looked up with \<^verbatim>\<open>in\<close>, that is by equality: a list that lacks
  one of them halts whatever else it holds, and a list with 0.10, 0.25, 0.50, 0.75 and a
  value of (0,1) that differs from the double 0.90 by any \<open>\<delta> \<noteq> 0\<close>, however small, halts
  with the message that 0.90 must be included.
\<close>

theorem no_tolerance:
  "(c \<in> set necessary_vals \<longrightarrow> c \<notin> set val \<longrightarrow>
      (\<exists>m. check_quantlist val shown = Inl (Halt m))) \<and>
   (\<delta> \<noteq> 0 \<longrightarrow> 0 < lit_0_90 + \<delta> \<longrightarrow> lit_0_90 + \<delta> < 1 \<longrightarrow>
      check_quantlist [lit_0_10, lit_0_25, lit_0_50, lit_0_75, lit_0_90 + \<delta>] shown =
        Inl (Halt (QuantlistMustInclude lit_0_90
          [lit_0_10, lit_0_25, lit_0_50, lit_0_75, lit_0_90 + \<delta>])))"
proof (intro conjI impI)
  assume "c \<in> set necessary_vals" "c \<notin> set val"
  then show "\<exists>m. check_quantlist val shown = Inl (Halt m)"
    using check_quantlist_halt [of val shown] by blast
next
  assume "\<delta> \<noteq> 0" "0 < lit_0_90 + \<delta>" "lit_0_90 + \<delta> < 1"
  then show "check_quantlist [lit_0_10, lit_0_25, lit_0_50, lit_0_75, lit_0_90 + \<delta>] shown =
     Inl (Halt (QuantlistMustInclude lit_0_90
       [lit_0_10, lit_0_25, lit_0_50, lit_0_75, lit_0_90 + \<delta>]))"
    by (simp add: check_quantlist_def necessary_vals_def lit_0_10_def lit_0_25_def lit_0_50_def
        lit_0_75_def lit_0_90_def)
qed

text \<open>The double that Python reads \<^verbatim>\<open>0.9000001\<close> as, in place of 0.90.\<close>

theorem no_tolerance_witness:
  "check_quantlist
     [lit_0_10, lit_0_25, lit_0_50, lit_0_75, 4053240114993409 / 4503599627370496] [] =
     Inl (Halt (QuantlistMustInclude lit_0_90
       [lit_0_10, lit_0_25, lit_0_50, lit_0_75, 4053240114993409 / 4503599627370496]))"
  using no_tolerance [where \<delta> = "4053240114993409 / 4503599627370496 - lit_0_90"
      and shown = "[]"]
  by (simp add: lit_0_90_def)

section \<open>Properties of the feature names\<close>

lemma digit_char_not_underscore: "d < 10 \<Longrightarrow> digit_char d \<noteq> CHR ''_''"
proof -
  assume "d < 10"
  then have "d \<in> {0,1,2,3,4,5,6,7,8,9}" by auto
  then show ?thesis by (auto simp: digit_char_def)
qed

lemma digit_char_inj: "a < 10 \<Longrightarrow> b < 10 \<Longrightarrow> digit_char a = digit_char b \<Longrightarrow> a = b"
proof -
  assume "a < 10" "b < 10" and e: "digit_char a = digit_char b"
  then have "a \<in> {0,1,2,3,4,5,6,7,8,9}" "b \<in> {0,1,2,3,4,5,6,7,8,9}" by auto
  with e show ?thesis by (auto simp: digit_char_def)
qed

lemma str_nat_no_underscore: "CHR ''_'' \<notin> set (str_nat n)"
proof (induction n rule: str_nat.induct)
  case (1 n)
  show ?case
  proof (cases "n < 10")
    case True
    then show ?thesis
      using digit_char_not_underscore [of n] by (simp add: str_nat.simps [of n])
  next
    case False
    have "n mod 10 < 10" by simp
    with False 1 digit_char_not_underscore [of "n mod 10"] show ?thesis
      by (simp add: str_nat.simps [of n])
  qed
qed

lemma str_nat_not_Nil: "str_nat n \<noteq> []"
  by (simp add: str_nat.simps [of n])

lemma str_nat_inj: "str_nat n = str_nat m \<Longrightarrow> n = m"
proof (induction n arbitrary: m rule: str_nat.induct)
  case (1 n)
  show ?case
  proof (cases "n < 10")
    case n: True
    show ?thesis
    proof (cases "m < 10")
      case True
      with n 1(2) show ?thesis
        by (simp add: str_nat.simps [of n] str_nat.simps [of m] digit_char_inj)
    next
      case False
      with n 1(2) str_nat_not_Nil [of "m div 10"] show ?thesis
        by (simp add: str_nat.simps [of n] str_nat.simps [of m])
    qed
  next
    case n: False
    show ?thesis
    proof (cases "m < 10")
      case True
      with n 1(2) str_nat_not_Nil [of "n div 10"] show ?thesis
        by (simp add: str_nat.simps [of n] str_nat.simps [of m])
    next
      case False
      with n 1(2) have e: "str_nat (n div 10) = str_nat (m div 10)"
        and d: "digit_char (n mod 10) = digit_char (m mod 10)"
        by (simp_all add: str_nat.simps [of n] str_nat.simps [of m])
      from 1(1) [OF n e] have "n div 10 = m div 10" .
      moreover from d have "n mod 10 = m mod 10"
        by (intro digit_char_inj) simp_all
      ultimately show ?thesis
        by (metis div_mult_mod_eq)
    qed
  qed
qed

lemma last_separator:
  assumes "xs @ c # ys = xs' @ c # ys'" and "c \<notin> set ys" and "c \<notin> set ys'"
  shows "xs = xs' \<and> ys = ys'"
proof -
  have "takeWhile (\<lambda>x. x \<noteq> c) (rev (xs @ c # ys)) = rev ys"
    using assms(2) by (auto simp: takeWhile_tail)
  moreover have "takeWhile (\<lambda>x. x \<noteq> c) (rev (xs' @ c # ys')) = rev ys'"
    using assms(3) by (auto simp: takeWhile_tail)
  ultimately have "ys = ys'"
    using assms(1) by simp
  with assms(1) show ?thesis by simp
qed

lemma valid_transform_no_underscore:
  "t \<in> set valid_transforms \<Longrightarrow> CHR ''_'' \<notin> set t"
  by (auto simp: valid_transforms_def)

lemma feature_name_inj:
  assumes "feature_name r i t = feature_name r' i' t'"
    and "CHR ''_'' \<notin> set t" and "CHR ''_'' \<notin> set t'"
  shows "r = r' \<and> i = i' \<and> t = t'"
proof -
  from assms(1)
  have "(r @ ''_trans_'' @ str_nat i) @ CHR ''_'' # t = (r' @ ''_trans_'' @ str_nat i') @ CHR ''_'' # t'"
    by (simp add: feature_name_def)
  from last_separator [OF this assms(2) assms(3)]
  have t: "t = t'" and "r @ ''_trans_'' @ str_nat i = r' @ ''_trans_'' @ str_nat i'" by simp_all
  then have "(r @ ''_trans'') @ CHR ''_'' # str_nat i = (r' @ ''_trans'') @ CHR ''_'' # str_nat i'"
    by simp
  from last_separator [OF this str_nat_no_underscore str_nat_no_underscore]
  have "r = r'" and "str_nat i = str_nat i'" by simp_all
  with t str_nat_inj show ?thesis by blast
qed

lemma update_new_key: "k \<notin> fst ` set d \<Longrightarrow> AList.update k v d = d @ [(k, v)]"
  by (induction d) auto

lemma feature_names_from_index:
  "n \<in> set (feature_names_from j rows) \<Longrightarrow>
   \<exists>r k t opt. n = feature_name r k t \<and> (r, t, opt) \<in> set rows \<and> j \<le> k"
proof (induction rows arbitrary: j)
  case Nil
  then show ?case by simp
next
  case (Cons row rows)
  obtain r t opt where row: "row = (r, t, opt)" by (cases row)
  show ?case
  proof (cases "n = feature_name r j t")
    case True
    with row show ?thesis by auto
  next
    case False
    with Cons.prems row have "n \<in> set (feature_names_from (Suc j) rows)" by simp
    from Cons.IH [OF this] show ?thesis by fastforce
  qed
qed

lemma distinct_feature_names_from:
  "\<forall>(r, t, opt) \<in> set rows. CHR ''_'' \<notin> set t \<Longrightarrow>
   distinct (feature_names_from j rows)"
proof (induction rows arbitrary: j)
  case Nil
  then show ?case by simp
next
  case (Cons row rows)
  obtain r t opt where row: "row = (r, t, opt)" by (cases row)
  have "feature_name r j t \<notin> set (feature_names_from (Suc j) rows)"
  proof
    assume "feature_name r j t \<in> set (feature_names_from (Suc j) rows)"
    from feature_names_from_index [OF this] obtain r' k t' opt'
      where e: "feature_name r j t = feature_name r' k t'"
        and m: "(r', t', opt') \<in> set rows" and k: "Suc j \<le> k"
      by blast
    from Cons.prems row m have "CHR ''_'' \<notin> set t" "CHR ''_'' \<notin> set t'"
      by auto
    from feature_name_inj [OF e this] k show False by simp
  qed
  with Cons row show ?case by simp
qed

lemma read_regressors_from_append:
  "distinct (map fst d @ feature_names_from i rows) \<Longrightarrow>
   read_regressors_from i rows d =
     d @ map2 (\<lambda>n (r, t, opt). (n, \<lparr>transform = t, option = opt\<rparr>))
           (feature_names_from i rows) rows"
proof (induction rows arbitrary: i d)
  case Nil
  then show ?case by simp
next
  case (Cons row rows)
  obtain r t opt where row: "row = (r, t, opt)" by (cases row)
  let ?n = "feature_name r i t"
  let ?v = "\<lparr>transform = t, option = opt\<rparr>"
  from Cons.prems row have new: "?n \<notin> fst ` set d" by auto
  from Cons.prems row have "distinct (map fst (d @ [(?n, ?v)]) @ feature_names_from (Suc i) rows)"
    by auto
  from Cons.IH [OF this] show ?case
    by (simp add: row update_new_key [OF new])
qed

lemma length_feature_names_from [simp]: "length (feature_names_from i rows) = length rows"
  by (induction rows arbitrary: i) auto

lemma example_collision:
  "feature_names_from 0 [(''a'', ''b_trans_1_None'', PFloat 1), (''a_trans_0_b'', ''None'', PNone)] =
     [''a_trans_0_b_trans_1_None'', ''a_trans_0_b_trans_1_None'']"
  "read_regressors [(''a'', ''b_trans_1_None'', PFloat 1), (''a_trans_0_b'', ''None'', PNone)] =
     [(''a_trans_0_b_trans_1_None'', \<lparr>transform = ''None'', option = PNone\<rparr>)]"
  "check_regressors [(''a_trans_0_b_trans_1_None'', \<lparr>transform = ''None'', option = PNone\<rparr>)] [] =
     Inr ([(''a_trans_0_b_trans_1_None'', \<lparr>transform = ''None'', option = PNone\<rparr>)], [])"
  by (simp_all add: read_regressors_def feature_name_def str_nat.simps digit_char_def
      check_regressor_valid valid_transforms_def)

section \<open>The claim about the feature names\<close>

text \<open>
  C8 (amended). For every list of declared regressors in which no transform holds an
  underscore (none of the six transforms of the validator does), the synthesized feature
  names are pairwise distinct, also when a source series and a transform occur more than
  once; the dict holds one entry per row, in the order of the rows, and the list of
  features that \<^verbatim>\<open>run_quantfit\<close> iterates over is the list of these names in that order,
  also after the validator has run.
\<close>

theorem feature_names_distinct_in_order:
  assumes "\<forall>(regressor, transform', option') \<in> set rows. CHR ''_'' \<notin> set transform'"
  shows "distinct (feature_names_from 0 rows) \<and>
         regressor_keys (read_regressors rows) = feature_names_from 0 rows \<and>
         map snd (read_regressors rows) =
           map (\<lambda>(regressor, transform', option'). \<lparr>transform = transform', option = option'\<rparr>) rows \<and>
         (\<forall>shown regs' shown'.
            check_regressors (read_regressors rows) shown = Inr (regs', shown') \<longrightarrow>
              regressor_keys regs' = feature_names_from 0 rows) \<and>
         (\<forall>t \<in> set valid_transforms. CHR ''_'' \<notin> set t)"
proof -
  have d: "distinct (feature_names_from 0 rows)"
    using assms by (rule distinct_feature_names_from)
  then have r: "read_regressors rows =
      map2 (\<lambda>n (r, t, opt). (n, \<lparr>transform = t, option = opt\<rparr>)) (feature_names_from 0 rows) rows"
    using read_regressors_from_append [of "[]" 0 rows] by (simp add: read_regressors_def)
  have k: "regressor_keys (read_regressors rows) = feature_names_from 0 rows"
    unfolding r regressor_keys_def
    by (rule nth_equalityI) (auto simp: split_beta)
  have s: "map snd (read_regressors rows) =
      map (\<lambda>(regressor, transform', option'). \<lparr>transform = transform', option = option'\<rparr>) rows"
    unfolding r
    by (rule nth_equalityI) (auto simp: split_beta)
  have v: "regressor_keys regs' = feature_names_from 0 rows"
    if "check_regressors (read_regressors rows) shown = Inr (regs', shown')" for shown regs' shown'
  proof -
    from check_regressors_Inr [OF that] have "map fst regs' = map fst (read_regressors rows)"
      by (simp add: split_beta comp_def)
    with k show ?thesis by (simp add: regressor_keys_def)
  qed
  have u: "\<forall>t \<in> set valid_transforms. CHR ''_'' \<notin> set t"
    using valid_transform_no_underscore by blast
  from d k s v u show ?thesis by blast
qed

text \<open>
  C8, the claim as stated fails: the name of a regressor and a transform can hold
  \<^verbatim>\<open>'_trans_'\<close> themselves. These two rows get the same name; the dict keeps one entry for
  them, with the transform of the second row, and the validator completes on it.
\<close>

theorem feature_names_collide:
  "feature_names_from 0 [(''a'', ''b_trans_1_None'', PFloat 1), (''a_trans_0_b'', ''None'', PNone)] =
     [''a_trans_0_b_trans_1_None'', ''a_trans_0_b_trans_1_None''] \<and>
   \<not> distinct
     (feature_names_from 0 [(''a'', ''b_trans_1_None'', PFloat 1), (''a_trans_0_b'', ''None'', PNone)]) \<and>
   regressor_keys
     (read_regressors [(''a'', ''b_trans_1_None'', PFloat 1), (''a_trans_0_b'', ''None'', PNone)]) =
     [''a_trans_0_b_trans_1_None''] \<and>
   check_regressors
     (read_regressors [(''a'', ''b_trans_1_None'', PFloat 1), (''a_trans_0_b'', ''None'', PNone)]) [] =
     Inr ([(''a_trans_0_b_trans_1_None'', \<lparr>transform = ''None'', option = PNone\<rparr>)], [])"
  unfolding example_collision by (simp add: regressor_keys_def)

text \<open>The same source series with the same transform, declared twice.\<close>

theorem feature_names_distinct_in_order_witness:
  "distinct [''gdp_trans_0_None'', ''gdp_trans_1_None''] \<and>
   regressor_keys (read_regressors [(''gdp'', ''None'', PNone), (''gdp'', ''None'', PNone)]) =
     [''gdp_trans_0_None'', ''gdp_trans_1_None'']"
proof -
  have h: "\<forall>(regressor, transform', option') \<in>
      set [(''gdp'', ''None'', PNone), (''gdp'', ''None'', PNone)].
        CHR ''_'' \<notin> set transform'"
    by simp
  have e: "feature_names_from 0 [(''gdp'', ''None'', PNone), (''gdp'', ''None'', PNone)] =
      [''gdp_trans_0_None'', ''gdp_trans_1_None'']"
    by code_simp
  from feature_names_distinct_in_order [OF h] show ?thesis
    unfolding e by blast
qed

section \<open>Properties of the transforms\<close>

lemma length_shifted [simp]: "length (shifted k x) = length x"
  by (simp add: shifted_def)

lemma shifted_nth:
  "t < length x \<Longrightarrow> 0 \<le> k \<Longrightarrow>
   shifted k x ! t = (if nat k \<le> t then x ! (t - nat k) else NaN)"
proof -
  assume t: "t < length x" and k: "0 \<le> k"
  have "nat (int t - k) = t - nat k" using k by simp
  moreover have "0 \<le> int t - k \<longleftrightarrow> nat k \<le> t" using k by auto
  moreover have "int t - k < int (length x)" using t k by simp
  ultimately show ?thesis
    using t by (simp add: shifted_def Let_def)
qed

lemma shifted_0: "shifted 0 x = x"
  by (rule nth_equalityI) (simp_all add: shifted_nth)

lemma shift_in_range: "int64 k \<Longrightarrow> shift k x = Inr (shifted k x)"
  by (simp add: shift_def)

lemma shift_overflow: "\<not> int64 k \<Longrightarrow> shift k x = Inl OverflowError"
  by (simp add: shift_def)

lemma int64_nonneg: "0 \<le> k \<Longrightarrow> k < 2 ^ 63 \<Longrightarrow> int64 k"
  by (simp add: int64_def)

lemma fl_add_NaN [simp]: "fl_add r NaN y = NaN" "fl_add r x NaN = NaN"
  by (simp_all add: fl_add_def)

lemma fl_neg_NaN [simp]: "fl_neg NaN = NaN"
  by (simp add: fl_neg_def)

lemma fl_sub_NaN [simp]: "fl_sub r NaN y = NaN" "fl_sub r x NaN = NaN"
  by (simp_all add: fl_sub_def)

lemma fl_div_NaN [simp]: "fl_div r NaN y = NaN" "fl_div r x NaN = NaN"
  by (simp_all add: fl_div_def)

lemma fl_div_zero_zero: "is_zero x \<Longrightarrow> is_zero y \<Longrightarrow> fl_div r x y = NaN"
  by (auto simp: fl_div_def is_zero_def is_inf_def)

lemma fl_div_by_zero:
  "is_zero y \<Longrightarrow> a \<noteq> 0 \<Longrightarrow> fl_div r (Fin a) y = PosInf \<or> fl_div r (Fin a) y = NegInf"
  by (auto simp: fl_div_def is_zero_def is_inf_def)

lemma fl_sub_inf_one [simp]:
  "fl_sub r PosInf (Fin 1) = PosInf" "fl_sub r NegInf (Fin 1) = NegInf"
  by (simp_all add: fl_sub_def fl_add_def fl_neg_def is_inf_def)

lemma diff_in_range:
  "int64 k \<Longrightarrow> diff ar k x = Inr (map2 (fl_sub (rnd ar)) x (shifted k x))"
  by (simp add: diff_def shift_in_range)

lemma diff_nth:
  "t < length x \<Longrightarrow> 0 \<le> k \<Longrightarrow>
   map2 (fl_sub (rnd ar)) x (shifted k x) ! t =
     (if nat k \<le> t then fl_sub (rnd ar) (x ! t) (x ! (t - nat k)) else NaN)"
  by (simp add: shifted_nth)

lemma length_pad_from [simp]: "length (pad_from p x) = length x"
  by (induction x arbitrary: p) auto

lemma length_pad [simp]: "length (pad x) = length x"
  by (simp add: pad_def)

lemma pad_from_nth:
  "t < length x \<Longrightarrow>
   pad_from p x ! t =
     (if x ! t \<noteq> NaN then x ! t else if t = 0 then p else pad_from p x ! (t - 1))"
proof (induction x arbitrary: p t)
  case Nil
  then show ?case by simp
next
  case (Cons v x)
  show ?case
  proof (cases t)
    case 0
    then show ?thesis by simp
  next
    case (Suc s)
    with Cons.prems have s: "s < length x" by simp
    show ?thesis
    proof (cases s)
      case 0
      with Suc s Cons.IH [OF s] show ?thesis by simp
    next
      case (Suc r)
      with \<open>t = Suc s\<close> s Cons.IH [OF s] show ?thesis by simp
    qed
  qed
qed

lemma pad_nth:
  "t < length x \<Longrightarrow>
   pad x ! t = (if x ! t \<noteq> NaN then x ! t else if t = 0 then NaN else pad x ! (t - 1))"
  unfolding pad_def by (rule pad_from_nth)

lemma pct_change_in_range:
  "int64 k \<Longrightarrow>
   pct_change ar k x =
     Inr (map2 (\<lambda>a b. fl_sub (rnd ar) (fl_div (rnd ar) a b) (Fin 1)) (pad x) (shifted k (pad x)))"
  by (simp add: pct_change_def shift_in_range Let_def)

lemma pct_change_nth:
  "t < length x \<Longrightarrow> 0 \<le> k \<Longrightarrow>
   map2 (\<lambda>a b. fl_sub (rnd ar) (fl_div (rnd ar) a b) (Fin 1)) (pad x) (shifted k (pad x)) ! t =
     (if nat k \<le> t then fl_sub (rnd ar) (fl_div (rnd ar) (pad x ! t) (pad x ! (t - nat k))) (Fin 1)
      else NaN)"
  by (simp add: shifted_nth)

lemma length_rolling_mean [simp]: "length (rolling_mean ar w x) = length x"
  by (simp add: rolling_mean_def)

lemma rolling_mean_nth:
  "t < length x \<Longrightarrow>
   rolling_mean ar w x ! t =
     (if w = 0 \<or> t + 1 < w then NaN
      else if \<exists>v \<in> set (take w (drop (t + 1 - w) x)). v = NaN \<or> is_inf v then NaN
      else meanf ar w (take (t + 1) x))"
  by (simp add: rolling_mean_def)

lemma rolling_mean_NaN:
  assumes "t < length x" "j \<le> t" "t < j + w" "x ! j = NaN"
  shows "rolling_mean ar w x ! t = NaN"
proof (cases "w = 0 \<or> t + 1 < w")
  case True
  with assms(1) show ?thesis by (simp add: rolling_mean_nth)
next
  case False
  then have w: "0 < w" "w \<le> t + 1" by auto
  have "j - (t + 1 - w) < length (take w (drop (t + 1 - w) x))"
    using assms w by auto
  moreover have "take w (drop (t + 1 - w) x) ! (j - (t + 1 - w)) = x ! j"
    using assms w by auto
  ultimately have "NaN \<in> set (take w (drop (t + 1 - w) x))"
    using assms(4) by (metis nth_mem)
  then have "\<exists>v \<in> set (take w (drop (t + 1 - w) x)). v = NaN \<or> is_inf v"
    by blast
  with assms(1) show ?thesis by (simp add: rolling_mean_nth)
qed

lemma fl_pow_NaN: "k \<noteq> 0 \<Longrightarrow> fl_pow p NaN k = NaN"
  by (simp add: fl_pow_def)

lemma transform_regressor_eq:
  assumes "map_of regs reg_long = Some spec"
    and "map_of df (split_head ''_trans_'' reg_long) = Some x"
  shows "transform spec = ''None'' \<Longrightarrow>
           transform_regressor ar regs reg_long df = Inr (AList.update reg_long x df)"
    and "transform spec = ''Lagged'' \<Longrightarrow> option spec = PInt k \<Longrightarrow> int64 k \<Longrightarrow>
           transform_regressor ar regs reg_long df =
             Inr (AList.update reg_long (shifted k x) df)"
    and "transform spec = ''Lagged'' \<Longrightarrow> option spec = PInt k \<Longrightarrow> \<not> int64 k \<Longrightarrow>
           transform_regressor ar regs reg_long df = Inl OverflowError"
    and "transform spec = ''MVA'' \<Longrightarrow> option spec = PInt k \<Longrightarrow> 0 \<le> k \<Longrightarrow> int64 k \<Longrightarrow>
           transform_regressor ar regs reg_long df =
             Inr (AList.update reg_long (rolling_mean ar (nat k) x) df)"
    and "transform spec = ''Power'' \<Longrightarrow> option spec = PInt k \<Longrightarrow>
           transform_regressor ar regs reg_long df =
             Inr (AList.update reg_long (map (\<lambda>v. fl_pow (powf ar) v k) x) df)"
    and "transform spec = ''Diff'' \<Longrightarrow> option spec = PInt k \<Longrightarrow> int64 k \<Longrightarrow>
           transform_regressor ar regs reg_long df =
             Inr (AList.update reg_long (map2 (fl_sub (rnd ar)) x (shifted k x)) df)"
    and "transform spec = ''ChangeRate'' \<Longrightarrow> option spec = PInt k \<Longrightarrow> int64 k \<Longrightarrow>
           transform_regressor ar regs reg_long df =
             Inr (AList.update reg_long
               (map2 (\<lambda>a b. fl_sub (rnd ar) (fl_div (rnd ar) a b) (Fin 1)) (pad x)
                  (shifted k (pad x))) df)"
  using assms
  by (simp_all add: transform_regressor_def assign_column_def with_option_def Let_def
      shift_in_range shift_overflow diff_in_range pct_change_in_range)

lemma exact_or_small [simp]:
  "exact_or r 0 = Fin 0" "exact_or r 1 = Fin 1" "exact_or r 2 = Fin 2" "exact_or r 3 = Fin 3"
  by (simp_all add: exact_or_def)

lemma example_pct_change:
  "pct_change ar 1 [Fin 0, Fin 1, NaN, Fin 3] = Inr [NaN, PosInf, Fin 0, Fin 2]"
  by (simp add: pct_change_def pad_def shift_def int64_def shifted_def Let_def
      fl_div_def fl_sub_def fl_add_def fl_neg_def is_zero_def is_inf_def negative_def upt_rec)

lemma example_diff:
  "diff ar 1 [Fin 0, Fin 1, NaN, Fin 3] = Inr [NaN, Fin 1, NaN, NaN]"
  by (simp add: diff_def shift_def int64_def shifted_def Let_def
      fl_sub_def fl_add_def fl_neg_def is_zero_def is_inf_def upt_rec)

lemma py_int_of_int: "py_int (of_int n) = n"
  by (simp add: py_int_def)

lemma py_int_2_63: "py_int 9223372036854775808 = 9223372036854775808"
  using py_int_of_int [of 9223372036854775808] by simp

lemma example_overflow:
  "check_regressor ''gdp_trans_0_Lagged'' \<lparr>transform = ''Lagged'', option = PFloat (2 ^ 63)\<rparr> [] =
     Inr (\<lparr>transform = ''Lagged'', option = PInt (2 ^ 63)\<rparr>, [])"
  "transform_regressor ar [(''gdp_trans_0_Lagged'', \<lparr>transform = ''Lagged'', option = PInt (2 ^ 63)\<rparr>)]
     ''gdp_trans_0_Lagged'' [(''gdp'', [Fin 1, Fin 2])] = Inl OverflowError"
proof -
  show "check_regressor ''gdp_trans_0_Lagged'' \<lparr>transform = ''Lagged'', option = PFloat (2 ^ 63)\<rparr> [] =
     Inr (\<lparr>transform = ''Lagged'', option = PInt (2 ^ 63)\<rparr>, [])"
    by (simp add: check_regressor_valid valid_transforms_def option_not_int_def option_as_int_def
        py_int_2_63 lit_1E_5_def)
  have "\<not> int64 (2 ^ 63)" by (simp add: int64_def)
  then show "transform_regressor ar
       [(''gdp_trans_0_Lagged'', \<lparr>transform = ''Lagged'', option = PInt (2 ^ 63)\<rparr>)]
       ''gdp_trans_0_Lagged'' [(''gdp'', [Fin 1, Fin 2])] = Inl OverflowError"
    by (simp add: transform_regressor_def assign_column_def with_option_def shift_overflow)
qed

lemma example_shift:
  "shift 2 [Fin 1, Fin 2, Fin 3, Fin 4, Fin 5] = Inr [NaN, NaN, Fin 1, Fin 2, Fin 3]"
  by (simp add: shift_def int64_def shifted_def Let_def upt_rec)

section \<open>The claims about the transforms\<close>

text \<open>
  C5 (amended). For every column \<open>x\<close>, every lag \<open>k\<close> with \<open>0 \<le> k < 2^63\<close> and every row
  \<open>t\<close>, the \<^verbatim>\<open>'Lagged'\<close> branch of the loop stores under the name of the feature the column
  that \<^verbatim>\<open>shift(k)\<close> returns, which has the rows of \<open>x\<close> and holds \<open>x[t - k]\<close> at row \<open>t\<close> when
  \<open>k \<le> t\<close> and \<^verbatim>\<open>NaN\<close> otherwise; with the lag 0 it stores \<open>x\<close> itself, as the \<^verbatim>\<open>'None'\<close>
  branch does. With a lag of \<open>2^63\<close> or more the branch raises \<^verbatim>\<open>OverflowError\<close>.
\<close>

theorem lagged_is_shift:
  assumes "0 \<le> k" and "k < 2 ^ 63" and "t < length x"
    and "map_of df (split_head ''_trans_'' reg_long) = Some x"
  shows "(map_of regs reg_long = Some \<lparr>transform = ''Lagged'', option = PInt k\<rparr> \<longrightarrow>
            (\<exists>y. transform_regressor ar regs reg_long df = Inr (AList.update reg_long y df) \<and>
                 shift k x = Inr y \<and> length y = length x \<and>
                 y ! t = (if nat k \<le> t then x ! (t - nat k) else NaN))) \<and>
         (map_of regs reg_long = Some \<lparr>transform = ''Lagged'', option = PInt 0\<rparr> \<longrightarrow>
            transform_regressor ar regs reg_long df = Inr (AList.update reg_long x df)) \<and>
         (map_of regs reg_long = Some \<lparr>transform = ''None'', option = PNone\<rparr> \<longrightarrow>
            transform_regressor ar regs reg_long df = Inr (AList.update reg_long x df)) \<and>
         shift 0 x = Inr x \<and>
         (\<forall>k'. 2 ^ 63 \<le> k' \<longrightarrow>
            map_of regs reg_long = Some \<lparr>transform = ''Lagged'', option = PInt k'\<rparr> \<longrightarrow>
              transform_regressor ar regs reg_long df = Inl OverflowError)"
proof -
  from assms have r: "int64 k" by (simp add: int64_nonneg)
  have r0: "int64 0" by (simp add: int64_def)
  note e = transform_regressor_eq [OF _ assms(4)]
  have 1: "\<exists>y. transform_regressor ar regs reg_long df = Inr (AList.update reg_long y df) \<and>
      shift k x = Inr y \<and> length y = length x \<and>
      y ! t = (if nat k \<le> t then x ! (t - nat k) else NaN)"
    if "map_of regs reg_long = Some \<lparr>transform = ''Lagged'', option = PInt k\<rparr>"
  proof (intro exI conjI)
    show "transform_regressor ar regs reg_long df = Inr (AList.update reg_long (shifted k x) df)"
      using e(2) [OF that _ _ r] by simp
    show "shift k x = Inr (shifted k x)" using r by (rule shift_in_range)
    show "length (shifted k x) = length x" by simp
    show "shifted k x ! t = (if nat k \<le> t then x ! (t - nat k) else NaN)"
      using assms(3,1) by (rule shifted_nth)
  qed
  have 2: "transform_regressor ar regs reg_long df = Inr (AList.update reg_long x df)"
    if "map_of regs reg_long = Some \<lparr>transform = ''Lagged'', option = PInt 0\<rparr>"
    using e(2) [OF that _ _ r0] by (simp add: shifted_0)
  have 3: "transform_regressor ar regs reg_long df = Inr (AList.update reg_long x df)"
    if "map_of regs reg_long = Some \<lparr>transform = ''None'', option = PNone\<rparr>"
    using e(1) [OF that] by simp
  have 4: "shift 0 x = Inr x"
    by (simp add: shift_in_range [OF r0] shifted_0)
  have 5: "transform_regressor ar regs reg_long df = Inl OverflowError"
    if "2 ^ 63 \<le> k'"
      and "map_of regs reg_long = Some \<lparr>transform = ''Lagged'', option = PInt k'\<rparr>" for k'
  proof -
    from that(1) have "\<not> int64 k'" by (simp add: int64_def)
    from e(3) [OF that(2) _ _ this] show ?thesis by simp
  qed
  from 1 2 3 4 5 show ?thesis by blast
qed

text \<open>
  C5, the claim as stated fails for a large lag: the validator accepts the option
  \<^verbatim>\<open>9.223372036854776e18\<close>, the double of value \<open>2^63\<close>, and stores the int \<open>2^63\<close>; with it
  the \<^verbatim>\<open>'Lagged'\<close> branch raises \<^verbatim>\<open>OverflowError\<close> and returns no column.
\<close>

theorem lag_overflow:
  "check_regressor ''gdp_trans_0_Lagged''
     \<lparr>transform = ''Lagged'', option = PFloat 9223372036854775808\<rparr> [] =
     Inr (\<lparr>transform = ''Lagged'', option = PInt 9223372036854775808\<rparr>, []) \<and>
   shift 9223372036854775808 [Fin 1, Fin 2] = Inl OverflowError \<and>
   (\<forall>ar. transform_regressor ar
      [(''gdp_trans_0_Lagged'', \<lparr>transform = ''Lagged'', option = PInt 9223372036854775808\<rparr>)]
      ''gdp_trans_0_Lagged'' [(''gdp'', [Fin 1, Fin 2])] = Inl OverflowError)"
  using example_overflow by (simp add: shift_overflow int64_def)

text \<open>The theorem on a column of five rows, with the lag 2.\<close>

theorem lagged_is_shift_witness:
  "\<forall>ar. transform_regressor ar
     [(''gdp_trans_0_Lagged'', \<lparr>transform = ''Lagged'', option = PInt 2\<rparr>)]
     ''gdp_trans_0_Lagged'' [(''gdp'', [Fin 1, Fin 2, Fin 3, Fin 4, Fin 5])] =
   Inr [(''gdp'', [Fin 1, Fin 2, Fin 3, Fin 4, Fin 5]),
        (''gdp_trans_0_Lagged'', [NaN, NaN, Fin 1, Fin 2, Fin 3])]"
proof
  fix ar
  let ?x = "[Fin 1, Fin 2, Fin 3, Fin 4, Fin 5]"
  let ?regs = "[(''gdp_trans_0_Lagged'', \<lparr>transform = ''Lagged'', option = PInt 2\<rparr>)]"
  let ?df = "[(''gdp'', ?x)]"
  have h: "(0::int) \<le> 2" "(2::int) < 2 ^ 63" "3 < length ?x"
    "map_of ?df (split_head ''_trans_'' ''gdp_trans_0_Lagged'') = Some ?x"
    by simp_all
  have s: "shift 2 ?x = Inr [NaN, NaN, Fin 1, Fin 2, Fin 3]"
    by (simp add: example_shift)
  from lagged_is_shift [OF h, of ?regs ar, THEN conjunct1]
  obtain y where "transform_regressor ar ?regs ''gdp_trans_0_Lagged'' ?df =
      Inr (AList.update ''gdp_trans_0_Lagged'' y ?df)" and "shift 2 ?x = Inr y"
    by auto
  with s show "transform_regressor ar ?regs ''gdp_trans_0_Lagged'' ?df =
      Inr [(''gdp'', ?x), (''gdp_trans_0_Lagged'', [NaN, NaN, Fin 1, Fin 2, Fin 3])]"
    by simp
qed

text \<open>
  C3 (amended). For every column \<open>x\<close> of doubles, every lag \<open>k\<close> with \<open>0 \<le> k < 2^63\<close> and
  every row \<open>t\<close>:
  \<^item> the \<^verbatim>\<open>'Diff'\<close> branch stores the column of \<^verbatim>\<open>diff(k)\<close>, which at row \<open>t\<close> holds the double
    \<open>x[t] - x[t - k]\<close> when \<open>k \<le> t\<close> and \<^verbatim>\<open>NaN\<close> otherwise, and so \<^verbatim>\<open>NaN\<close> when one of the two
    is missing;
  \<^item> the \<^verbatim>\<open>'ChangeRate'\<close> branch stores the column of \<^verbatim>\<open>pct_change(k)\<close>, which works on the
    padded column \<open>p\<close>, where a missing value is replaced by the last value before it
    that is not missing: at row \<open>t\<close> it holds the double \<open>p[t] / p[t - k] - 1\<close> (a division
    and a subtraction, each rounded) when \<open>k \<le> t\<close> and \<^verbatim>\<open>NaN\<close> otherwise; this is an
    infinity, not a missing value, when \<open>p[t - k]\<close> is zero and \<open>p[t]\<close> is a number other
    than zero, and it is \<^verbatim>\<open>NaN\<close> when \<open>p[t]\<close> or \<open>p[t - k]\<close> is missing or both are zero;
  \<^item> a missing value of \<open>x\<close> gives a missing value in the column that the branches
    \<^verbatim>\<open>'None'\<close>, \<^verbatim>\<open>'Lagged'\<close>, \<^verbatim>\<open>'Diff'\<close>, \<^verbatim>\<open>'MVA'\<close> (in every row whose window holds it) and
    \<^verbatim>\<open>'Power'\<close> with an exponent other than 0 store; \<^verbatim>\<open>'Power'\<close> with the exponent 0 stores
    1 in every row. (The exponent is taken in the range of a 64-bit integer.)
\<close>

theorem difference_and_percent_change:
  assumes "0 \<le> k" and "k < 2 ^ 63" and "t < length x"
    and "map_of df (split_head ''_trans_'' reg_long) = Some x"
  shows "(map_of regs reg_long = Some \<lparr>transform = ''Diff'', option = PInt k\<rparr> \<longrightarrow>
            (\<exists>y. transform_regressor ar regs reg_long df = Inr (AList.update reg_long y df) \<and>
                 diff ar k x = Inr y \<and> length y = length x \<and>
                 y ! t = (if nat k \<le> t then fl_sub (rnd ar) (x ! t) (x ! (t - nat k)) else NaN) \<and>
                 (x ! t = NaN \<or> (nat k \<le> t \<and> x ! (t - nat k) = NaN) \<longrightarrow> y ! t = NaN))) \<and>
         (map_of regs reg_long = Some \<lparr>transform = ''ChangeRate'', option = PInt k\<rparr> \<longrightarrow>
            (\<exists>y. transform_regressor ar regs reg_long df = Inr (AList.update reg_long y df) \<and>
                 pct_change ar k x = Inr y \<and> length y = length x \<and>
                 y ! t =
                   (if nat k \<le> t
                    then fl_sub (rnd ar)
                           (fl_div (rnd ar) (pad x ! t) (pad x ! (t - nat k))) (Fin 1)
                    else NaN) \<and>
                 (nat k \<le> t \<longrightarrow> is_zero (pad x ! (t - nat k)) \<longrightarrow>
                    (\<exists>a. pad x ! t = Fin a \<and> a \<noteq> 0) \<longrightarrow> y ! t = PosInf \<or> y ! t = NegInf) \<and>
                 (pad x ! t = NaN \<or> pad x ! (t - nat k) = NaN \<or>
                    (is_zero (pad x ! t) \<and> is_zero (pad x ! (t - nat k))) \<longrightarrow> y ! t = NaN))) \<and>
         pad x ! t = (if x ! t \<noteq> NaN then x ! t else if t = 0 then NaN else pad x ! (t - 1)) \<and>
         (map_of regs reg_long = Some \<lparr>transform = ''None'', option = PNone\<rparr> \<longrightarrow>
            transform_regressor ar regs reg_long df = Inr (AList.update reg_long x df)) \<and>
         (map_of regs reg_long = Some \<lparr>transform = ''Lagged'', option = PInt k\<rparr> \<longrightarrow>
            (\<exists>y. transform_regressor ar regs reg_long df = Inr (AList.update reg_long y df) \<and>
                 length y = length x \<and>
                 (nat k \<le> t \<longrightarrow> x ! (t - nat k) = NaN \<longrightarrow> y ! t = NaN))) \<and>
         (map_of regs reg_long = Some \<lparr>transform = ''MVA'', option = PInt k\<rparr> \<longrightarrow>
            (\<exists>y. transform_regressor ar regs reg_long df = Inr (AList.update reg_long y df) \<and>
                 length y = length x \<and>
                 (\<forall>j. j \<le> t \<and> t < j + nat k \<and> x ! j = NaN \<longrightarrow> y ! t = NaN))) \<and>
         (\<forall>n. int64 n \<longrightarrow>
            map_of regs reg_long = Some \<lparr>transform = ''Power'', option = PInt n\<rparr> \<longrightarrow>
            (\<exists>y. transform_regressor ar regs reg_long df = Inr (AList.update reg_long y df) \<and>
                 length y = length x \<and>
                 (n \<noteq> 0 \<longrightarrow> x ! t = NaN \<longrightarrow> y ! t = NaN) \<and>
                 (n = 0 \<longrightarrow> y ! t = Fin 1)))"
proof -
  from assms have r: "int64 k" by (simp add: int64_nonneg)
  note e = transform_regressor_eq [OF _ assms(4)]
  let ?d = "map2 (fl_sub (rnd ar)) x (shifted k x)"
  let ?p = "map2 (\<lambda>a b. fl_sub (rnd ar) (fl_div (rnd ar) a b) (Fin 1)) (pad x) (shifted k (pad x))"
  note dn = diff_nth [OF assms(3,1), of ar]
  note pn = pct_change_nth [OF assms(3,1), of ar]
  have d: "\<exists>y. transform_regressor ar regs reg_long df = Inr (AList.update reg_long y df) \<and>
      diff ar k x = Inr y \<and> length y = length x \<and>
      y ! t = (if nat k \<le> t then fl_sub (rnd ar) (x ! t) (x ! (t - nat k)) else NaN) \<and>
      (x ! t = NaN \<or> (nat k \<le> t \<and> x ! (t - nat k) = NaN) \<longrightarrow> y ! t = NaN)"
    if "map_of regs reg_long = Some \<lparr>transform = ''Diff'', option = PInt k\<rparr>"
  proof (intro exI conjI)
    show "transform_regressor ar regs reg_long df = Inr (AList.update reg_long ?d df)"
      using e(6) [OF that _ _ r] by simp
    show "diff ar k x = Inr ?d" using r by (rule diff_in_range)
    show "length ?d = length x" by simp
    show "?d ! t = (if nat k \<le> t then fl_sub (rnd ar) (x ! t) (x ! (t - nat k)) else NaN)"
      by (rule dn)
    show "x ! t = NaN \<or> (nat k \<le> t \<and> x ! (t - nat k) = NaN) \<longrightarrow> ?d ! t = NaN"
      unfolding dn by auto
  qed
  have p: "\<exists>y. transform_regressor ar regs reg_long df = Inr (AList.update reg_long y df) \<and>
      pct_change ar k x = Inr y \<and> length y = length x \<and>
      y ! t =
        (if nat k \<le> t
         then fl_sub (rnd ar) (fl_div (rnd ar) (pad x ! t) (pad x ! (t - nat k))) (Fin 1)
         else NaN) \<and>
      (nat k \<le> t \<longrightarrow> is_zero (pad x ! (t - nat k)) \<longrightarrow>
         (\<exists>a. pad x ! t = Fin a \<and> a \<noteq> 0) \<longrightarrow> y ! t = PosInf \<or> y ! t = NegInf) \<and>
      (pad x ! t = NaN \<or> pad x ! (t - nat k) = NaN \<or>
         (is_zero (pad x ! t) \<and> is_zero (pad x ! (t - nat k))) \<longrightarrow> y ! t = NaN)"
    if "map_of regs reg_long = Some \<lparr>transform = ''ChangeRate'', option = PInt k\<rparr>"
  proof (intro exI conjI)
    show "transform_regressor ar regs reg_long df = Inr (AList.update reg_long ?p df)"
      using e(7) [OF that _ _ r] by simp
    show "pct_change ar k x = Inr ?p" using r by (rule pct_change_in_range)
    show "length ?p = length x" by simp
    show "?p ! t =
        (if nat k \<le> t
         then fl_sub (rnd ar) (fl_div (rnd ar) (pad x ! t) (pad x ! (t - nat k))) (Fin 1)
         else NaN)"
      by (rule pn)
    show "nat k \<le> t \<longrightarrow> is_zero (pad x ! (t - nat k)) \<longrightarrow>
        (\<exists>a. pad x ! t = Fin a \<and> a \<noteq> 0) \<longrightarrow> ?p ! t = PosInf \<or> ?p ! t = NegInf"
    proof (intro impI)
      assume k: "nat k \<le> t" and z: "is_zero (pad x ! (t - nat k))"
        and "\<exists>a. pad x ! t = Fin a \<and> a \<noteq> 0"
      then obtain a where a: "pad x ! t = Fin a" "a \<noteq> 0" by blast
      from fl_div_by_zero [OF z a(2), of "rnd ar"] k a(1) show "?p ! t = PosInf \<or> ?p ! t = NegInf"
        unfolding pn by auto
    qed
    show "pad x ! t = NaN \<or> pad x ! (t - nat k) = NaN \<or>
        (is_zero (pad x ! t) \<and> is_zero (pad x ! (t - nat k))) \<longrightarrow> ?p ! t = NaN"
      unfolding pn by (auto simp: fl_div_zero_zero)
  qed
  have q: "pad x ! t = (if x ! t \<noteq> NaN then x ! t else if t = 0 then NaN else pad x ! (t - 1))"
    using assms(3) by (rule pad_nth)
  have i: "transform_regressor ar regs reg_long df = Inr (AList.update reg_long x df)"
    if "map_of regs reg_long = Some \<lparr>transform = ''None'', option = PNone\<rparr>"
    using e(1) [OF that] by simp
  have l: "\<exists>y. transform_regressor ar regs reg_long df = Inr (AList.update reg_long y df) \<and>
      length y = length x \<and> (nat k \<le> t \<longrightarrow> x ! (t - nat k) = NaN \<longrightarrow> y ! t = NaN)"
    if "map_of regs reg_long = Some \<lparr>transform = ''Lagged'', option = PInt k\<rparr>"
  proof (intro exI conjI)
    show "transform_regressor ar regs reg_long df = Inr (AList.update reg_long (shifted k x) df)"
      using e(2) [OF that _ _ r] by simp
    show "length (shifted k x) = length x" by simp
    show "nat k \<le> t \<longrightarrow> x ! (t - nat k) = NaN \<longrightarrow> shifted k x ! t = NaN"
      using assms(3,1) by (simp add: shifted_nth)
  qed
  have m: "\<exists>y. transform_regressor ar regs reg_long df = Inr (AList.update reg_long y df) \<and>
      length y = length x \<and> (\<forall>j. j \<le> t \<and> t < j + nat k \<and> x ! j = NaN \<longrightarrow> y ! t = NaN)"
    if "map_of regs reg_long = Some \<lparr>transform = ''MVA'', option = PInt k\<rparr>"
  proof (intro exI conjI)
    show "transform_regressor ar regs reg_long df =
        Inr (AList.update reg_long (rolling_mean ar (nat k) x) df)"
      using e(4) [OF that _ _ assms(1) r] by simp
    show "length (rolling_mean ar (nat k) x) = length x" by simp
    show "\<forall>j. j \<le> t \<and> t < j + nat k \<and> x ! j = NaN \<longrightarrow> rolling_mean ar (nat k) x ! t = NaN"
      using rolling_mean_NaN [OF assms(3)] by blast
  qed
  have w: "\<exists>y. transform_regressor ar regs reg_long df = Inr (AList.update reg_long y df) \<and>
      length y = length x \<and> (n \<noteq> 0 \<longrightarrow> x ! t = NaN \<longrightarrow> y ! t = NaN) \<and>
      (n = 0 \<longrightarrow> y ! t = Fin 1)"
    if "int64 n"
      and "map_of regs reg_long = Some \<lparr>transform = ''Power'', option = PInt n\<rparr>" for n
  proof (intro exI conjI)
    show "transform_regressor ar regs reg_long df =
        Inr (AList.update reg_long (map (\<lambda>v. fl_pow (powf ar) v n) x) df)"
      using e(5) [OF that(2)] by simp
    show "length (map (\<lambda>v. fl_pow (powf ar) v n) x) = length x" by simp
    show "n \<noteq> 0 \<longrightarrow> x ! t = NaN \<longrightarrow> map (\<lambda>v. fl_pow (powf ar) v n) x ! t = NaN"
      using assms(3) by (simp add: fl_pow_NaN)
    show "n = 0 \<longrightarrow> map (\<lambda>v. fl_pow (powf ar) v n) x ! t = Fin 1"
      using assms(3) by (simp add: fl_pow_def)
  qed
  from d p q i l m w show ?thesis by blast
qed

text \<open>
  C3, the claim as stated fails: in this column the value before row 1 is zero and the
  value of row 2 is missing, and the percent change of rows 1 and 2 is not missing: it is
  \<^verbatim>\<open>inf\<close> and 0 (row 3 is the change from 1, which row 2 was padded with, to 3). A missing
  value to the power 0 is 1.
\<close>

theorem percent_change_not_missing:
  "\<forall>ar. pct_change ar 1 [Fin 0, Fin 1, NaN, Fin 3] = Inr [NaN, PosInf, Fin 0, Fin 2] \<and>
        transform_regressor ar
          [(''gdp_trans_0_ChangeRate'', \<lparr>transform = ''ChangeRate'', option = PInt 1\<rparr>)]
          ''gdp_trans_0_ChangeRate'' [(''gdp'', [Fin 0, Fin 1, NaN, Fin 3])] =
          Inr [(''gdp'', [Fin 0, Fin 1, NaN, Fin 3]),
               (''gdp_trans_0_ChangeRate'', [NaN, PosInf, Fin 0, Fin 2])] \<and>
        map (\<lambda>v. fl_pow (powf ar) v 0) [NaN, Fin 2] = [Fin 1, Fin 1]"
  using example_pct_change
  by (simp add: fl_pow_def transform_regressor_def assign_column_def with_option_def)

text \<open>The theorem on that column: the difference with the lag 1.\<close>

theorem difference_and_percent_change_witness:
  "\<forall>ar. transform_regressor ar
     [(''gdp_trans_0_Diff'', \<lparr>transform = ''Diff'', option = PInt 1\<rparr>)]
     ''gdp_trans_0_Diff'' [(''gdp'', [Fin 0, Fin 1, NaN, Fin 3])] =
   Inr [(''gdp'', [Fin 0, Fin 1, NaN, Fin 3]),
        (''gdp_trans_0_Diff'', [NaN, Fin 1, NaN, NaN])]"
proof
  fix ar
  let ?x = "[Fin 0, Fin 1, NaN, Fin 3]"
  let ?regs = "[(''gdp_trans_0_Diff'', \<lparr>transform = ''Diff'', option = PInt 1\<rparr>)]"
  let ?df = "[(''gdp'', ?x)]"
  have h: "(0::int) \<le> 1" "(1::int) < 2 ^ 63" "1 < length ?x"
    "map_of ?df (split_head ''_trans_'' ''gdp_trans_0_Diff'') = Some ?x"
    by simp_all
  from difference_and_percent_change [OF h, of ?regs ar, THEN conjunct1]
  obtain y where "transform_regressor ar ?regs ''gdp_trans_0_Diff'' ?df =
      Inr (AList.update ''gdp_trans_0_Diff'' y ?df)" and "diff ar 1 ?x = Inr y"
    by auto
  then show "transform_regressor ar ?regs ''gdp_trans_0_Diff'' ?df =
      Inr [(''gdp'', ?x), (''gdp_trans_0_Diff'', [NaN, Fin 1, NaN, NaN])]"
    by (simp add: example_diff)
qed

end
